theory Spec2Isabelle
  imports Complex_Main "HOL-Library.AList"
begin

section \<open>Shuttle tracker: clustering and trip health (server.js)\<close>

text \<open>
  The two calculation functions of \<^verbatim>\<open>server.js\<close>, \<^verbatim>\<open>calculateClusters\<close> and
  \<^verbatim>\<open>calculateTripHealth\<close>, with their helpers \<^verbatim>\<open>getNeighbors\<close>,
  \<^verbatim>\<open>calculateHaversineDistance\<close> and \<^verbatim>\<open>calculateWeightedCenter\<close>.

  JavaScript numbers are IEEE doubles; the model idealises the finite ones as real
  numbers (no rounding, no overflow to Infinity) and keeps \<^verbatim>\<open>NaN\<close> as a value of
  its own, because the code tests for it. Times are integer milliseconds since the epoch,
  as \<^verbatim>\<open>Date.now()\<close> and \<^verbatim>\<open>getTime()\<close> return them.

  The arguments \<^verbatim>\<open>bookings\<close> and \<^verbatim>\<open>trips\<close> are arrays of objects, as the server
  reads them from \<^verbatim>\<open>data.json\<close>. Trip codes and rider ids are strings, and no trip code
  is the name of a member of \<^verbatim>\<open>Object.prototype\<close> (the server stores trip codes in upper
  case), so that the objects used as dictionaries behave as finite maps. The calls to
  \<^verbatim>\<open>console.log\<close> and \<^verbatim>\<open>console.warn\<close> are left out.
\<close>

subsection \<open>Values read from a booking\<close>

text \<open>
  A field that the code inspects with \<^verbatim>\<open>typeof x === 'number'\<close> and \<^verbatim>\<open>isNaN(x)\<close>:
  absent (\<^verbatim>\<open>undefined\<close>), \<^verbatim>\<open>null\<close> (what \<^verbatim>\<open>/api/logBooking\<close> stores for an unusable
  accuracy), \<^verbatim>\<open>NaN\<close>, or a number. Strings, booleans and objects in such a field are
  not modelled.
\<close>

datatype jsval = Undefined | Null | NaN | Num real

fun typeofNumber :: "jsval \<Rightarrow> bool" where
  "typeofNumber NaN = True"
| "typeofNumber (Num r) = True"
| "typeofNumber Undefined = False"
| "typeofNumber Null = False"

text \<open>\<^verbatim>\<open>ToNumber\<close>, with \<open>None\<close> for \<^verbatim>\<open>NaN\<close>.\<close>

fun toNumber :: "jsval \<Rightarrow> real option" where
  "toNumber Undefined = None"
| "toNumber Null = Some 0"
| "toNumber NaN = None"
| "toNumber (Num r) = Some r"

definition isNaN :: "jsval \<Rightarrow> bool" where
  "isNaN v = (toNumber v = None)"

text \<open>
  A \<^verbatim>\<open>timestamp\<close> field as the code observes it: \<^verbatim>\<open>typeof ts === 'undefined'\<close>, or a
  value for which \<^verbatim>\<open>new Date(ts).getTime()\<close> is \<^verbatim>\<open>NaN\<close>, or a value for which it is
  the time \<open>t\<close>.
\<close>

datatype timestamp = TsUndefined | TsInvalid | TsTime int

fun getTime :: "timestamp \<Rightarrow> int option" where
  "getTime TsUndefined = None"
| "getTime TsInvalid = None"
| "getTime (TsTime t) = Some t"

subsection \<open>Records\<close>

record center =
  lat :: real
  lng :: real

record cluster =
  tripCode :: string
  center :: center
  strength :: real
  riderCount :: nat
  totalRiders :: nat
  timestamp :: int
  riders :: "string list"

text \<open>
  The point objects built at lines 250-256, and the bookings of \<^verbatim>\<open>data.json\<close>, which
  have the same fields and a trip code. A rider id or trip code is a string; the only
  falsy one is the empty string.
\<close>

record point =
  lat :: jsval
  lng :: jsval
  riderId :: string
  timestamp :: timestamp
  accuracy :: jsval

record booking = point +
  tripCode :: string

record trip =
  code :: string
  createdAt :: timestamp

datatype error = TypeError

subsection \<open>Constants for clustering\<close>

definition CLUSTER_RADIUS_METERS :: real where
  "CLUSTER_RADIUS_METERS = 1000"

definition MINIMUM_CLUSTER_SIZE :: nat where
  "MINIMUM_CLUSTER_SIZE = 2"

definition RECENT_BOOKING_MINUTES :: int where
  "RECENT_BOOKING_MINUTES = 5"

subsection \<open>calculateHaversineDistance\<close>

text \<open>
  \<^verbatim>\<open>Math.atan2(y, x)\<close> on real numbers. The code calls it with two square roots, so
  only the quadrant \<open>0 \<le> x\<close>, \<open>0 \<le> y\<close> is ever used.
\<close>

definition atan2 :: "real \<Rightarrow> real \<Rightarrow> real" where
  "atan2 y x =
     (if 0 < x then arctan (y / x)
      else if x < 0 \<and> 0 \<le> y then arctan (y / x) + pi
      else if x < 0 \<and> y < 0 then arctan (y / x) - pi
      else if 0 < y then pi / 2
      else if y < 0 then - (pi / 2)
      else 0)"

definition haversine_a :: "real \<Rightarrow> real \<Rightarrow> real \<Rightarrow> real \<Rightarrow> real" where
  "haversine_a lat1 lon1 lat2 lon2 =
     (let phi1 = lat1 * pi / 180;
          phi2 = lat2 * pi / 180;
          dphi = (lat2 - lat1) * pi / 180;
          dlam = (lon2 - lon1) * pi / 180
      in sin (dphi / 2) * sin (dphi / 2) +
         cos phi1 * cos phi2 * sin (dlam / 2) * sin (dlam / 2))"

definition calculateHaversineDistance :: "real \<Rightarrow> real \<Rightarrow> real \<Rightarrow> real \<Rightarrow> real" where
  "calculateHaversineDistance lat1 lon1 lat2 lon2 =
     (let R = 6371000;
          a = haversine_a lat1 lon1 lat2 lon2;
          c = 2 * atan2 (sqrt a) (sqrt (1 - a))
      in R * c)"

subsection \<open>getNeighbors\<close>

text \<open>
  The guard \<^verbatim>\<open>typeof p.lat !== 'number' || typeof p.lng !== 'number' || isNaN(p.lat) ||
  isNaN(p.lng)\<close> of lines 427 and 437.
\<close>

definition invalidCoords :: "'a point_scheme \<Rightarrow> bool" where
  "invalidCoords p =
     (\<not> typeofNumber (point.lat p) \<or> \<not> typeofNumber (point.lng p)
      \<or> isNaN (point.lat p) \<or> isNaN (point.lng p))"

text \<open>The number in a field that passed the guard.\<close>

fun num :: "jsval \<Rightarrow> real" where
  "num (Num r) = r"
| "num Null = 0"
| "num Undefined = 0"
| "num NaN = 0"

definition withinRadius :: "point \<Rightarrow> point \<Rightarrow> real \<Rightarrow> bool" where
  "withinRadius p otherPoint radiusMeters =
     (calculateHaversineDistance (num (point.lat p)) (num (point.lng p))
        (num (point.lat otherPoint)) (num (point.lng otherPoint)) \<le> radiusMeters)"

definition getNeighbors :: "point \<Rightarrow> nat \<Rightarrow> point list \<Rightarrow> real \<Rightarrow> nat list" where
  "getNeighbors p pointIndex allPoints radiusMeters =
     (if invalidCoords p then []
      else filter (\<lambda>i. i \<noteq> pointIndex \<and> \<not> invalidCoords (allPoints ! i)
                        \<and> withinRadius p (allPoints ! i) radiusMeters)
             [0..<length allPoints])"


subsection \<open>The point scan of calculateClusters (lines 259-312)\<close>

text \<open>
  The \<^verbatim>\<open>while (queue.length > 0)\<close> loop of lines 277-301. The state is the queue, the
  set \<^verbatim>\<open>visited\<close> and the array \<^verbatim>\<open>currentClusterPoints\<close>
  (\<^verbatim>\<open>currentClusterIndices\<close> is written and never read). Reading \<^verbatim>\<open>points[neighborIndex]\<close>
  beyond the array gives \<^verbatim>\<open>undefined\<close>, and \<^verbatim>\<open>getNeighbors\<close> then throws a TypeError on
  \<^verbatim>\<open>point.lat\<close>.
\<close>

function expandCluster ::
  "point list \<Rightarrow> nat list \<Rightarrow> nat set \<Rightarrow> point list \<Rightarrow> error + (nat set \<times> point list)" where
  "expandCluster points [] visited currentClusterPoints = Inr (visited, currentClusterPoints)"
| "expandCluster points (neighborIndex # queue) visited currentClusterPoints =
     (if neighborIndex \<in> visited then expandCluster points queue visited currentClusterPoints
      else if length points \<le> neighborIndex then Inl TypeError
      else
        let neighborPoint = points ! neighborIndex;
            neighborsOfNeighbor =
              getNeighbors neighborPoint neighborIndex points CLUSTER_RADIUS_METERS
        in expandCluster points
             (if MINIMUM_CLUSTER_SIZE \<le> length neighborsOfNeighbor + 1
              then queue @ filter (\<lambda>idx. idx \<notin> insert neighborIndex visited) neighborsOfNeighbor
              else queue)
             (insert neighborIndex visited)
             (currentClusterPoints @ [neighborPoint]))"
  by pat_completeness auto
termination
proof (relation "inv_image (less_than <*lex*> less_than)
          (\<lambda>(points, queue, visited, cl). (card ({0..<length points} - visited), length queue))",
       goal_cases)
  case 1
  show ?case by (intro wf_inv_image wf_lex_prod wf_less_than)
next
  case 2
  show ?case by simp
next
  case (3 points neighborIndex queue visited currentClusterPoints x xa)
  have "card ({0..<length points} - visited - {neighborIndex})
        < card ({0..<length points} - visited)"
    using 3(1,2) by (intro card_Diff1_less) simp_all
  moreover have "{0..<length points} - insert neighborIndex visited
                 = {0..<length points} - visited - {neighborIndex}"
    by (rule Diff_insert)
  ultimately have "card ({0..<length points} - insert neighborIndex visited)
                   < card ({0..<length points} - visited)"
    by (simp only:)
  then show ?case
    by (simp only: in_inv_image in_lex_prod prod.case less_than_iff simp_thms)
qed

declare expandCluster.simps [simp del]

text \<open>
  \<^verbatim>\<open>points.forEach((point, index) => ...)\<close> of lines 262-312, over the points paired
  with their indices; the state is \<^verbatim>\<open>visited\<close> and \<^verbatim>\<open>tripSpecificClusters\<close>.
\<close>

fun scanPoints ::
  "point list \<Rightarrow> (nat \<times> point) list \<Rightarrow> nat set \<Rightarrow> point list list \<Rightarrow> error + point list list"
  where
  "scanPoints points [] visited tripSpecificClusters = Inr tripSpecificClusters"
| "scanPoints points ((index, p) # rest) visited tripSpecificClusters =
     (if index \<in> visited then scanPoints points rest visited tripSpecificClusters
      else
        let neighborIndices = getNeighbors p index points CLUSTER_RADIUS_METERS
        in if MINIMUM_CLUSTER_SIZE \<le> length neighborIndices + 1
           then (case expandCluster points neighborIndices (insert index visited) [p] of
                   Inl e \<Rightarrow> Inl e
                 | Inr (visited', currentClusterPoints) \<Rightarrow>
                     scanPoints points rest visited' (tripSpecificClusters @ [currentClusterPoints]))
           else scanPoints points rest (insert index visited) tripSpecificClusters)"

definition findClusters :: "point list \<Rightarrow> error + point list list" where
  "findClusters points = scanPoints points (enumerate 0 points) {} []"


subsection \<open>calculateWeightedCenter\<close>

text \<open>\<^verbatim>\<open>Math.max(point.accuracy, 1)\<close> and \<^verbatim>\<open>1 / accuracy\<close>; \<open>None\<close> is \<^verbatim>\<open>NaN\<close>.\<close>

definition weight :: "point \<Rightarrow> real option" where
  "weight p =
     (case toNumber (accuracy p) of
        None \<Rightarrow> None
      | Some a \<Rightarrow> Some (1 / max a 1))"

text \<open>
  The body of \<^verbatim>\<open>points.forEach\<close> at lines 374-389, on
  \<^verbatim>\<open>(sumLatWeight, sumLngWeight, totalWeight)\<close>.
\<close>

definition addWeighted :: "real \<times> real \<times> real \<Rightarrow> point \<Rightarrow> real \<times> real \<times> real" where
  "addWeighted acc p =
     (case acc of (sumLatWeight, sumLngWeight, totalWeight) \<Rightarrow>
        (case weight p of
           Some w \<Rightarrow>
             if typeofNumber (point.lat p) \<and> typeofNumber (point.lng p)
                \<and> \<not> isNaN (point.lat p) \<and> \<not> isNaN (point.lng p)
             then (sumLatWeight + num (point.lat p) * w,
                   sumLngWeight + num (point.lng p) * w,
                   totalWeight + w)
             else acc
         | None \<Rightarrow> acc))"

definition calculateWeightedCenter :: "point list \<Rightarrow> center option" where
  "calculateWeightedCenter points =
     (if points = [] then None
      else
        (case foldl addWeighted (0, 0, 0) points of
           (sumLatWeight, sumLngWeight, totalWeight) \<Rightarrow>
             if totalWeight = 0
             then
               (let validPoints =
                      filter (\<lambda>p. typeofNumber (point.lat p) \<and> typeofNumber (point.lng p)
                                   \<and> \<not> isNaN (point.lat p) \<and> \<not> isNaN (point.lng p)) points
                in if 0 < length validPoints
                   then
                     (case foldl (\<lambda>(sumLat, sumLng) p.
                                    (sumLat + num (point.lat p), sumLng + num (point.lng p)))
                             (0, 0) validPoints of
                        (sumLat, sumLng) \<Rightarrow>
                          Some \<lparr>center.lat = sumLat / real (length validPoints),
                                center.lng = sumLng / real (length validPoints)\<rparr>)
                   else None)
             else Some \<lparr>center.lat = sumLatWeight / totalWeight,
                        center.lng = sumLngWeight / totalWeight\<rparr>))"

subsection \<open>calculateClusters\<close>

text \<open>The filter of lines 208-213, given \<^verbatim>\<open>cutoffTime\<close>.\<close>

definition isRecent :: "int \<Rightarrow> booking \<Rightarrow> bool" where
  "isRecent cutoffTime b =
     (if point.timestamp b = TsUndefined \<or> \<not> typeofNumber (point.lat b)
         \<or> \<not> typeofNumber (point.lng b)
      then False
      else (case getTime (point.timestamp b) of
              None \<Rightarrow> False
            | Some bookingTime \<Rightarrow> cutoffTime \<le> bookingTime))"

text \<open>
  \<^verbatim>\<open>bookingsByTrip\<close> (lines 217-223): an object used as a dictionary from trip code to
  the array of that trip's recent bookings, here an association list in the order in which
  the keys were first written. (\<^verbatim>\<open>Object.keys\<close> lists keys that look like array indices
  first; each key is processed on its own, so the order of the keys does not show in the
  result.)
\<close>

definition groupByTrip :: "booking list \<Rightarrow> (string \<times> booking list) list" where
  "groupByTrip recentBookings =
     foldl (\<lambda>bookingsByTrip b.
              AList.update (tripCode b)
                ((case map_of bookingsByTrip (tripCode b) of None \<Rightarrow> [] | Some bs \<Rightarrow> bs) @ [b])
                bookingsByTrip)
       [] recentBookings"

text \<open>\<^verbatim>\<open>totalRidersPerTrip\<close> (lines 226-234): trip code to the \<^verbatim>\<open>Set\<close> of rider ids.\<close>

definition countRiders :: "booking list \<Rightarrow> (string \<rightharpoonup> string set)" where
  "countRiders validBookings =
     foldl (\<lambda>totalRidersPerTrip b.
              if tripCode b \<noteq> [] \<and> riderId b \<noteq> []
              then totalRidersPerTrip(tripCode b \<mapsto>
                     insert (riderId b)
                       (case totalRidersPerTrip (tripCode b) of None \<Rightarrow> {} | Some s \<Rightarrow> s))
              else totalRidersPerTrip)
       Map.empty validBookings"

text \<open>The point built from a booking at lines 250-256.\<close>

definition toPoint :: "booking \<Rightarrow> point" where
  "toPoint b =
     \<lparr>point.lat = point.lat b, lng = point.lng b, riderId = riderId b,
      timestamp = point.timestamp b,
      accuracy =
        (if typeofNumber (accuracy b) \<and> (case toNumber (accuracy b) of None \<Rightarrow> False | Some a \<Rightarrow> 0 < a)
         then accuracy b else Num 50)\<rparr>"

text \<open>\<^verbatim>\<open>tripSpecificClusters.reduce(...)\<close> of lines 319-321, on a non-empty array.\<close>

definition largestOf :: "point list \<Rightarrow> point list list \<Rightarrow> point list" where
  "largestOf first others =
     foldl (\<lambda>largest current. if length largest < length current then current else largest)
       first others"

text \<open>
  The body of \<^verbatim>\<open>Object.keys(bookingsByTrip).forEach\<close> (lines 239-351) for one trip code;
  \<open>None\<close> when nothing is stored for the trip. \<open>newDate\<close> is the clock read by
  \<^verbatim>\<open>new Date()\<close> at line 340.
\<close>

definition processTrip ::
  "int \<Rightarrow> (string \<rightharpoonup> string set) \<Rightarrow> string \<Rightarrow> booking list \<Rightarrow> error + cluster option" where
  "processTrip newDate totalRidersPerTrip tc recentTripRiders =
     (if length recentTripRiders < MINIMUM_CLUSTER_SIZE then Inr None
      else
        (case findClusters (map toPoint recentTripRiders) of
           Inl e \<Rightarrow> Inl e
         | Inr [] \<Rightarrow> Inr None
         | Inr (first # others) \<Rightarrow>
             (let largestCluster = largestOf first others;
                  clusterRiderCount = length largestCluster;
                  totalRidersForThisTrip =
                    (case totalRidersPerTrip tc of
                       None \<Rightarrow> clusterRiderCount
                     | Some s \<Rightarrow> if card s = 0 then clusterRiderCount else card s);
                  strength =
                    (if 0 < totalRidersForThisTrip
                     then real clusterRiderCount / real totalRidersForThisTrip else 0)
              in (case calculateWeightedCenter largestCluster of
                    None \<Rightarrow> Inr None
                  | Some c \<Rightarrow>
                      Inr (Some \<lparr>cluster.tripCode = tc, center = c,
                                 strength = min 1 strength,
                                 riderCount = clusterRiderCount,
                                 totalRiders = totalRidersForThisTrip,
                                 cluster.timestamp = newDate,
                                 riders = map riderId largestCluster\<rparr>)))))"

fun processTrips ::
  "(string \<Rightarrow> int) \<Rightarrow> (string \<rightharpoonup> string set) \<Rightarrow> (string \<times> booking list) list
   \<Rightarrow> (string \<rightharpoonup> cluster) \<Rightarrow> error + (string \<rightharpoonup> cluster)" where
  "processTrips newDate totalRidersPerTrip [] tripClusterResults = Inr tripClusterResults"
| "processTrips newDate totalRidersPerTrip ((tc, recentTripRiders) # rest) tripClusterResults =
     (case processTrip (newDate tc) totalRidersPerTrip tc recentTripRiders of
        Inl e \<Rightarrow> Inl e
      | Inr None \<Rightarrow> processTrips newDate totalRidersPerTrip rest tripClusterResults
      | Inr (Some c) \<Rightarrow>
          processTrips newDate totalRidersPerTrip rest (tripClusterResults(tc \<mapsto> c)))"

text \<open>
  \<^verbatim>\<open>calculateClusters(bookings, trips)\<close>. The function reads the clock itself:
  \<open>now\<close> is the value of \<^verbatim>\<open>Date.now()\<close> at line 200, and \<open>newDate tc\<close> the value of
  \<^verbatim>\<open>new Date()\<close> at line 340 when the result for trip \<open>tc\<close> is stored. The argument
  \<open>trips\<close> is only logged.
\<close>

definition calculateClusters ::
  "int \<Rightarrow> (string \<Rightarrow> int) \<Rightarrow> booking list \<Rightarrow> trip list \<Rightarrow> error + (string \<rightharpoonup> cluster)" where
  "calculateClusters now newDate bookings trips =
     (let cutoffTime = now - RECENT_BOOKING_MINUTES * 60 * 1000;
          validBookings = bookings;
          recentBookings = filter (isRecent cutoffTime) validBookings;
          bookingsByTrip = groupByTrip recentBookings;
          totalRidersPerTrip = countRiders validBookings
      in processTrips newDate totalRidersPerTrip bookingsByTrip Map.empty)"

subsection \<open>calculateTripHealth\<close>

datatype status = ACTIVE | STALE | INACTIVE | NO_SIGNAL

text \<open>
  The five message texts; the two that embed \<^verbatim>\<open>Math.round(minutesSinceLastUpdate)\<close>
  carry that number.
\<close>

datatype message =
    NoRidersYet
  | CouldNotDetermine
  | TripActive
  | PossiblyStale int
  | Inactive int

record health =
  status :: status
  message :: message
  lastUpdate :: "timestamp option"

definition mathRound :: "real \<Rightarrow> int" where
  "mathRound x = \<lfloor>x + 1 / 2\<rfloor>"

text \<open>
  The body of \<^verbatim>\<open>tripBookings.forEach\<close> (lines 516-526), on
  \<^verbatim>\<open>(latestTimestamp, latestBookingTimestampStr)\<close>.
\<close>

definition laterOf :: "int \<times> timestamp option \<Rightarrow> booking \<Rightarrow> int \<times> timestamp option" where
  "laterOf latest b =
     (case latest of (latestTimestamp, latestBookingTimestampStr) \<Rightarrow>
        if point.timestamp b \<noteq> TsUndefined
        then (case getTime (point.timestamp b) of
                Some bookingTime \<Rightarrow>
                  if latestTimestamp < bookingTime
                  then (bookingTime, Some (point.timestamp b)) else latest
              | None \<Rightarrow> latest)
        else latest)"

text \<open>The body of \<^verbatim>\<open>validTrips.forEach\<close> (lines 497-561) for the bookings of one trip.\<close>

definition tripHealthOf :: "int \<Rightarrow> booking list \<Rightarrow> health" where
  "tripHealthOf now tripBookings =
     (if length tripBookings = 0
      then \<lparr>status = NO_SIGNAL, message = NoRidersYet, lastUpdate = None\<rparr>
      else
        (case foldl laterOf (0, None) tripBookings of
           (latestTimestamp, latestBookingTimestampStr) \<Rightarrow>
             if latestTimestamp = 0 \<or> latestBookingTimestampStr = None
             then \<lparr>status = NO_SIGNAL, message = CouldNotDetermine, lastUpdate = None\<rparr>
             else
               (let minutesSinceLastUpdate = real_of_int (now - latestTimestamp) / (60 * 1000)
                in if minutesSinceLastUpdate \<le> 2
                   then \<lparr>status = ACTIVE, message = TripActive,
                         lastUpdate = latestBookingTimestampStr\<rparr>
                   else if minutesSinceLastUpdate \<le> 10
                   then \<lparr>status = STALE,
                         message = PossiblyStale (mathRound minutesSinceLastUpdate),
                         lastUpdate = latestBookingTimestampStr\<rparr>
                   else \<lparr>status = INACTIVE,
                         message = Inactive (mathRound minutesSinceLastUpdate),
                         lastUpdate = latestBookingTimestampStr\<rparr>)))"

text \<open>
  \<^verbatim>\<open>calculateTripHealth(bookings, trips)\<close>; \<open>now\<close> is the value of \<^verbatim>\<open>Date.now()\<close>
  read at line 490.
\<close>

definition calculateTripHealth :: "int \<Rightarrow> booking list \<Rightarrow> trip list \<Rightarrow> (string \<rightharpoonup> health)" where
  "calculateTripHealth now bookings trips =
     foldl (\<lambda>tripHealth t.
              tripHealth(code t \<mapsto>
                tripHealthOf now (filter (\<lambda>b. tripCode b = code t) bookings)))
       Map.empty trips"

subsection \<open>Auxiliary notions used in the statements\<close>

text \<open>
  A trip's recent bookings, in the order of the bookings, and what
  \<^verbatim>\<open>calculateClusters\<close> stores for one trip code: the body of the loop over the trip
  codes, run on that trip's recent bookings.
\<close>

definition recentTripRiders :: "int \<Rightarrow> booking list \<Rightarrow> string \<Rightarrow> booking list" where
  "recentTripRiders now bookings tc =
     filter (\<lambda>b. tripCode b = tc)
       (filter (isRecent (now - RECENT_BOOKING_MINUTES * 60 * 1000)) bookings)"

definition clusterFor :: "int \<Rightarrow> (string \<Rightarrow> int) \<Rightarrow> booking list \<Rightarrow> string \<Rightarrow> cluster option" where
  "clusterFor now newDate bookings tc =
     (case processTrip (newDate tc) (countRiders bookings) tc
             (recentTripRiders now bookings tc) of
        Inr r \<Rightarrow> r
      | Inl e \<Rightarrow> None)"

text \<open>The non-empty rider ids seen for a non-empty trip code in a list of bookings.\<close>

definition ridersOf :: "booking list \<Rightarrow> string \<Rightarrow> string set" where
  "ridersOf bookings tc =
     riderId ` {b \<in> set bookings. tripCode b = tc \<and> tc \<noteq> [] \<and> riderId b \<noteq> []}"

text \<open>
  The times of a trip's pings whose timestamp is valid (\<^verbatim>\<open>getTime()\<close> is not
  \<^verbatim>\<open>NaN\<close>), in the order of the pings.
\<close>

definition pingTimes :: "booking list \<Rightarrow> string \<Rightarrow> int list" where
  "pingTimes bookings tc =
     List.map_filter (\<lambda>b. getTime (point.timestamp b)) (filter (\<lambda>b. tripCode b = tc) bookings)"

text \<open>A sample booking with valid coordinates, timestamp and accuracy.\<close>

definition riderAt :: "string \<Rightarrow> string \<Rightarrow> int \<Rightarrow> real \<Rightarrow> real \<Rightarrow> booking" where
  "riderAt tc rid t la lo =
     \<lparr>point.lat = Num la, lng = Num lo, riderId = rid, timestamp = TsTime t,
      accuracy = Num 10, tripCode = tc\<rparr>"


text \<open>
  For the centroid: a point enters the weighted sums when its coordinates are valid numbers
  and its weight is not \<^verbatim>\<open>NaN\<close>; the weight is \<open>1 / max(accuracy, 1)\<close>.
\<close>

definition usable :: "point \<Rightarrow> bool" where
  "usable p = (\<not> invalidCoords p \<and> toNumber (accuracy p) \<noteq> None)"

definition inverseAccuracy :: "point \<Rightarrow> real" where
  "inverseAccuracy p = 1 / max (num (accuracy p)) 1"

subsection \<open>The clustering procedure in the words of the specification\<close>

text \<open>
  A point is a core point if the count of other points within distance R (its neighbours),
  plus itself, is at least M.
\<close>

definition isCorePoint :: "point list \<Rightarrow> nat \<Rightarrow> bool" where
  "isCorePoint points i =
     (MINIMUM_CLUSTER_SIZE
      \<le> length (getNeighbors (points ! i) i points CLUSTER_RADIUS_METERS) + 1)"

text \<open>
  The expansion: a FIFO queue of neighbour indices; repeatedly a neighbour is dequeued,
  added to the cluster and marked visited, and if it is itself a core point its own
  unvisited neighbours are enqueued (a border point enqueues nothing), until the queue is
  empty. A cluster holds each ping once: an index that is in the queue twice, enqueued by
  two core points before its turn came, is added when it is first dequeued and passed over
  the second time.
\<close>

function specExpand ::
  "point list \<Rightarrow> nat list \<Rightarrow> nat set \<Rightarrow> point list \<Rightarrow> nat set \<times> point list" where
  "specExpand points [] assigned members = (assigned, members)"
| "specExpand points (i # rest) assigned members =
     (if i \<in> assigned then specExpand points rest assigned members
      else specExpand points
             (rest @ (if isCorePoint points i
                      then filter (\<lambda>j. j \<notin> insert i assigned)
                             (getNeighbors (points ! i) i points CLUSTER_RADIUS_METERS)
                      else []))
             (insert i assigned) (members @ [points ! i]))"
  by pat_completeness auto
termination
proof (relation "inv_image (less_than <*lex*> less_than)
          (\<lambda>(points, queue, assigned, members).
              (card (({0..<length points} \<union> set queue) - assigned), length queue))",
       goal_cases)
  case 1
  show ?case by (intro wf_inv_image wf_lex_prod wf_less_than)
next
  case (2 points i rest assigned members)
  have "card (({0..<length points} \<union> set rest) - assigned)
        \<le> card (({0..<length points} \<union> set (i # rest)) - assigned)"
    by (intro card_mono) auto
  then have "card (({0..<length points} \<union> set rest) - assigned)
               < card (({0..<length points} \<union> set (i # rest)) - assigned)
             \<or> card (({0..<length points} \<union> set rest) - assigned)
               = card (({0..<length points} \<union> set (i # rest)) - assigned)"
    by linarith
  then show ?case
    by (simp only: in_inv_image in_lex_prod prod.case less_than_iff list.size) simp
next
  case (3 points i rest assigned members)
  let ?nn = "if isCorePoint points i
             then filter (\<lambda>j. j \<notin> insert i assigned)
                    (getNeighbors (points ! i) i points CLUSTER_RADIUS_METERS)
             else []"
  let ?U = "{0..<length points} \<union> set (i # rest)"
  have nn: "set ?nn \<subseteq> {0..<length points}"
    by (auto simp: getNeighbors_def)
  have sub: "({0..<length points} \<union> set (rest @ ?nn)) - insert i assigned
             \<subseteq> (?U - assigned) - {i}"
    using nn by auto
  have "card ((?U - assigned) - {i}) < card (?U - assigned)"
    using 3 by (intro card_Diff1_less) simp_all
  moreover have "card (({0..<length points} \<union> set (rest @ ?nn)) - insert i assigned)
                 \<le> card ((?U - assigned) - {i})"
    using sub by (intro card_mono) simp_all
  ultimately have "card (({0..<length points} \<union> set (rest @ ?nn)) - insert i assigned)
                   < card (?U - assigned)"
    by linarith
  then show ?case
    by (simp only: in_inv_image in_lex_prod prod.case less_than_iff simp_thms)
qed

declare specExpand.simps [simp del]

text \<open>
  The scan, in input order: a point already assigned is skipped; an unvisited core point
  starts a new cluster, whose queue is seeded with its unvisited neighbours; any other
  point is left alone, and is noise if no cluster absorbs it.
\<close>

fun specScan :: "point list \<Rightarrow> nat list \<Rightarrow> nat set \<Rightarrow> point list list \<Rightarrow> point list list" where
  "specScan points [] assigned clusters = clusters"
| "specScan points (i # rest) assigned clusters =
     (if i \<in> assigned then specScan points rest assigned clusters
      else if isCorePoint points i
      then (case specExpand points
                   (filter (\<lambda>j. j \<notin> insert i assigned)
                      (getNeighbors (points ! i) i points CLUSTER_RADIUS_METERS))
                   (insert i assigned) [points ! i] of
              (assigned', members) \<Rightarrow> specScan points rest assigned' (clusters @ [members]))
      else specScan points rest assigned clusters)"

definition specClusters :: "point list \<Rightarrow> point list list" where
  "specClusters points = specScan points [0..<length points] {} []"

subsection \<open>Indices after a point is inserted\<close>

text \<open>
  When a point is inserted at position \<open>k\<close> of a list, the point that was at index \<open>i\<close>
  is at index \<open>shiftAt k i\<close>; \<open>unshiftAt k\<close> goes back.
\<close>

definition shiftAt :: "nat \<Rightarrow> nat \<Rightarrow> nat" where
  "shiftAt k i = (if i < k then i else Suc i)"

definition unshiftAt :: "nat \<Rightarrow> nat \<Rightarrow> nat" where
  "unshiftAt k j = (if j < k then j else j - 1)"

subsection \<open>Properties of the distance\<close>

lemma haversine_a_sym: "haversine_a lat1 lon1 lat2 lon2 = haversine_a lat2 lon2 lat1 lon1"
proof -
  have s: "sin ((x - y) * pi / 180 / 2) * sin ((x - y) * pi / 180 / 2)
         = sin ((y - x) * pi / 180 / 2) * sin ((y - x) * pi / 180 / 2)" for x y :: real
  proof -
    have "(x - y) * pi / 180 / 2 = - ((y - x) * pi / 180 / 2)"
      by (simp add: field_simps)
    then show ?thesis
      by (simp only: sin_minus) 
  qed
  show ?thesis
    unfolding haversine_a_def Let_def
    using s [of lat2 lat1] s [of lon2 lon1] by (simp add: mult.commute mult.left_commute)
qed

lemma haversine_sym:
  "calculateHaversineDistance lat1 lon1 lat2 lon2 = calculateHaversineDistance lat2 lon2 lat1 lon1"
  unfolding calculateHaversineDistance_def Let_def
  by (simp only: haversine_a_sym [of lat1 lon1 lat2 lon2])

lemma haversine_a_same: "haversine_a la lo la lo = 0"
  by (simp add: haversine_a_def)

lemma haversine_same: "calculateHaversineDistance la lo la lo = 0"
  by (simp add: calculateHaversineDistance_def haversine_a_same atan2_def)

text \<open>
  The term under the square roots lies between 0 and 1 for all coordinates, so that
  \<^verbatim>\<open>Math.sqrt\<close> is never applied to a negative number.
\<close>

lemma sin_half_squared: "sin (t / 2) * sin (t / 2) = (1 - cos t) / 2" for t :: real
  using cos_double_sin [of "t / 2"] by (simp add: power2_eq_square)

lemma haversine_term_bounds:
  fixes p1 p2 l :: real
  defines "a \<equiv> sin ((p2 - p1) / 2) * sin ((p2 - p1) / 2)
               + cos p1 * cos p2 * sin (l / 2) * sin (l / 2)"
  shows "0 \<le> a \<and> a \<le> 1"
proof -
  define k where "k = cos l"
  define e where "e = sin p1 * sin p2 + cos p1 * cos p2 * k"
  have k: "- 1 \<le> k" "k \<le> 1"
    by (simp_all add: k_def)
  have a: "a = (1 - e) / 2"
  proof -
    have "a = (1 - cos (p2 - p1)) / 2 + cos p1 * cos p2 * ((1 - cos l) / 2)"
      unfolding a_def
      by (simp only: sin_half_squared mult.assoc)
    then show ?thesis
      by (simp add: cos_diff e_def k_def algebra_simps add_divide_distrib diff_divide_distrib)
  qed
  have e: "e = (1 + k) / 2 * cos (p1 - p2) + (1 - k) / 2 * (- cos (p1 + p2))"
    by (simp add: e_def cos_diff cos_add algebra_simps add_divide_distrib diff_divide_distrib)
  have w: "0 \<le> (1 + k) / 2" "0 \<le> (1 - k) / 2"
    using k by simp_all
  have up: "e \<le> 1"
  proof -
    have "(1 + k) / 2 * cos (p1 - p2) \<le> (1 + k) / 2 * 1"
      using w(1) by (intro mult_left_mono) simp_all
    moreover have "(1 - k) / 2 * (- cos (p1 + p2)) \<le> (1 - k) / 2 * 1"
      using w(2) by (intro mult_left_mono) simp_all
    ultimately show ?thesis
      unfolding e by (simp add: field_simps)
  qed
  have lo: "- 1 \<le> e"
  proof -
    have "(1 + k) / 2 * (- 1) \<le> (1 + k) / 2 * cos (p1 - p2)"
      using w(1) by (intro mult_left_mono) simp_all
    moreover have "(1 - k) / 2 * (- 1) \<le> (1 - k) / 2 * (- cos (p1 + p2))"
      using w(2) by (intro mult_left_mono) simp_all
    ultimately show ?thesis
      unfolding e by (simp add: field_simps)
  qed
  from a up lo show ?thesis
    by simp
qed

lemma haversine_a_range:
  "0 \<le> haversine_a lat1 lon1 lat2 lon2 \<and> haversine_a lat1 lon1 lat2 lon2 \<le> 1"
proof -
  have d: "(lat2 - lat1) * pi / 180 = lat2 * pi / 180 - lat1 * pi / 180"
    by (simp add: algebra_simps diff_divide_distrib)
  show ?thesis
    unfolding haversine_a_def Let_def d
    by (rule haversine_term_bounds)
qed

lemma haversine_nonneg: "0 \<le> calculateHaversineDistance lat1 lon1 lat2 lon2"
proof -
  let ?a = "haversine_a lat1 lon1 lat2 lon2"
  have s: "0 \<le> sqrt ?a" "0 \<le> sqrt (1 - ?a)"
    using haversine_a_range [of lat1 lon1 lat2 lon2] by simp_all
  have "0 \<le> atan2 (sqrt ?a) (sqrt (1 - ?a))"
  proof (cases "0 < sqrt (1 - ?a)")
    case True
    with s(1) have "0 \<le> sqrt ?a / sqrt (1 - ?a)" by simp
    then have "0 \<le> arctan (sqrt ?a / sqrt (1 - ?a))"
      by (simp only: zero_le_arctan_iff)
    with True show ?thesis by (simp add: atan2_def)
  next
    case False
    with s(2) have "sqrt (1 - ?a) = 0" by simp
    with s(1) show ?thesis by (simp add: atan2_def)
  qed
  then show ?thesis
    by (simp add: calculateHaversineDistance_def Let_def)
qed

subsection \<open>The cluster expansion and the point scan\<close>

lemma getNeighbors_lt: "i \<in> set (getNeighbors p k pts r) \<Longrightarrow> i < length pts"
  by (auto simp: getNeighbors_def split: if_splits)

lemma card_unvisited_less:
  assumes "i \<notin> v" "i < (n::nat)"
  shows "card ({0..<n} - insert i v) < card ({0..<n} - v)"
proof -
  have "card ({0..<n} - v - {i}) < card ({0..<n} - v)"
    using assms by (intro card_Diff1_less) simp_all
  moreover have "{0..<n} - insert i v = {0..<n} - v - {i}"
    by (rule Diff_insert)
  ultimately show ?thesis
    by (simp only:)
qed

lemma expandCluster_Inr:
  "\<forall>i\<in>set q. i < length pts \<Longrightarrow> \<exists>r. expandCluster pts q v c = Inr r"
proof (induction pts q v c rule: expandCluster.induct)
  case (1 points visited currentClusterPoints)
  show ?case by (simp add: expandCluster.simps)
next
  case (2 points neighborIndex queue visited currentClusterPoints)
  show ?case
  proof (cases "neighborIndex \<in> visited")
    case True
    with 2 show ?thesis by (simp add: expandCluster.simps)
  next
    case False
    from 2(3) have lt: "neighborIndex < length points" by simp
    let ?nn = "getNeighbors (points ! neighborIndex) neighborIndex points CLUSTER_RADIUS_METERS"
    let ?q = "if MINIMUM_CLUSTER_SIZE \<le> length ?nn + 1
              then queue @ filter (\<lambda>idx. idx \<notin> insert neighborIndex visited) ?nn else queue"
    have "\<forall>i\<in>set ?q. i < length points"
      using 2(3) by (auto dest: getNeighbors_lt)
    with 2(2) [OF False _ refl refl] lt
    have "\<exists>r. expandCluster points ?q (insert neighborIndex visited)
                 (currentClusterPoints @ [points ! neighborIndex]) = Inr r"
      by simp
    with False lt show ?thesis
      by (simp add: expandCluster.simps(2) [of points neighborIndex] Let_def)
  qed
qed

lemma expandCluster_length:
  "expandCluster pts q v c = Inr (v', c')
   \<Longrightarrow> length c' + card ({0..<length pts} - v') \<le> length c + card ({0..<length pts} - v)"
proof (induction pts q v c rule: expandCluster.induct)
  case (1 points visited currentClusterPoints)
  then show ?case by (simp add: expandCluster.simps)
next
  case (2 points neighborIndex queue visited currentClusterPoints)
  show ?case
  proof (cases "neighborIndex \<in> visited")
    case True
    with 2 show ?thesis by (simp add: expandCluster.simps)
  next
    case False
    with 2(3) have lt: "neighborIndex < length points"
      by (simp add: expandCluster.simps(2) [of points neighborIndex] split: if_splits)
    let ?nn = "getNeighbors (points ! neighborIndex) neighborIndex points CLUSTER_RADIUS_METERS"
    let ?q = "if MINIMUM_CLUSTER_SIZE \<le> length ?nn + 1
              then queue @ filter (\<lambda>idx. idx \<notin> insert neighborIndex visited) ?nn else queue"
    from 2(3) False lt
    have "expandCluster points ?q (insert neighborIndex visited)
            (currentClusterPoints @ [points ! neighborIndex]) = Inr (v', c')"
      by (simp add: expandCluster.simps(2) [of points neighborIndex] Let_def)
    with 2(2) [OF False _ refl refl] lt
    have "length c' + card ({0..<length points} - v')
          \<le> length (currentClusterPoints @ [points ! neighborIndex])
            + card ({0..<length points} - insert neighborIndex visited)"
      by simp
    with card_unvisited_less [OF False lt] show ?thesis
      by simp
  qed
qed

lemma scanPoints_Inr:
  "\<forall>(i, p)\<in>set rest. i < length pts \<Longrightarrow> \<exists>r. scanPoints pts rest v cs = Inr r"
proof (induction pts rest v cs rule: scanPoints.induct)
  case (1 points visited tripSpecificClusters)
  show ?case by simp
next
  case (2 points index p rest visited tripSpecificClusters)
  let ?nn = "getNeighbors p index points CLUSTER_RADIUS_METERS"
  from 2(4) have rest: "\<forall>(i, p)\<in>set rest. i < length points" by simp
  show ?case
  proof (cases "index \<in> visited")
    case True
    with 2(1) rest show ?thesis by simp
  next
    case False
    show ?thesis
    proof (cases "MINIMUM_CLUSTER_SIZE \<le> length ?nn + 1")
      case core: True
      have "\<forall>i\<in>set ?nn. i < length points"
        by (auto dest: getNeighbors_lt)
      then obtain v' c' where e: "expandCluster points ?nn (insert index visited) [p] = Inr (v', c')"
        using expandCluster_Inr [of ?nn points "insert index visited" "[p]"] by auto
      from 2(2) [OF False refl core e refl rest]
      show ?thesis using False core e by (simp add: Let_def)
    next
      case noise: False
      from 2(3) [OF False refl noise rest]
      show ?thesis using False noise by (simp add: Let_def)
    qed
  qed
qed

lemma findClusters_Inr: "\<exists>cs. findClusters pts = Inr cs"
  unfolding findClusters_def
  by (rule scanPoints_Inr) (auto simp: in_set_enumerate_eq)

lemma scanPoints_length:
  "scanPoints pts rest v cs = Inr cs' \<Longrightarrow> \<forall>(i, p)\<in>set rest. i < length pts
   \<Longrightarrow> \<forall>c\<in>set cs. length c \<le> length pts \<Longrightarrow> \<forall>c\<in>set cs'. length c \<le> length pts"
proof (induction pts rest v cs rule: scanPoints.induct)
  case (1 points visited tripSpecificClusters)
  then show ?case by simp
next
  case (2 points index p rest visited tripSpecificClusters)
  let ?nn = "getNeighbors p index points CLUSTER_RADIUS_METERS"
  from 2(5) have rest: "\<forall>(i, p)\<in>set rest. i < length points"
    and lt: "index < length points" by simp_all
  show ?case
  proof (cases "index \<in> visited")
    case True
    with 2(1) [OF True _ rest 2(6)] 2(4) show ?thesis by simp
  next
    case False
    show ?thesis
    proof (cases "MINIMUM_CLUSTER_SIZE \<le> length ?nn + 1")
      case core: True
      have "\<forall>i\<in>set ?nn. i < length points"
        by (auto dest: getNeighbors_lt)
      then obtain v' c' where e: "expandCluster points ?nn (insert index visited) [p] = Inr (v', c')"
        using expandCluster_Inr [of ?nn points "insert index visited" "[p]"] by auto
      from expandCluster_length [OF e] card_unvisited_less [OF False lt]
      have "length c' \<le> card ({0..<length points} - visited)"
        by simp
      also have "\<dots> \<le> card {0..<length points}"
        by (intro card_mono) auto
      finally have c': "length c' \<le> length points" by simp
      from 2(4) False core e
      have "scanPoints points rest v' (tripSpecificClusters @ [c']) = Inr cs'"
        by (simp add: Let_def)
      from 2(2) [OF False refl core e refl this rest] c' 2(6)
      show ?thesis by simp
    next
      case noise: False
      from 2(4) False noise
      have "scanPoints points rest (insert index visited) tripSpecificClusters = Inr cs'"
        by (simp add: Let_def)
      from 2(3) [OF False refl noise this rest 2(6)]
      show ?thesis .
    qed
  qed
qed

lemma findClusters_length:
  "findClusters pts = Inr cs \<Longrightarrow> c \<in> set cs \<Longrightarrow> length c \<le> length pts"
proof -
  assume a: "findClusters pts = Inr cs" "c \<in> set cs"
  have "\<forall>(i, p)\<in>set (enumerate 0 pts). i < length pts"
    by (auto simp: in_set_enumerate_eq)
  with scanPoints_length [of pts "enumerate 0 pts" "{}" "[]" cs] a
  show ?thesis
    by (simp add: findClusters_def)
qed

lemma withinRadius_sym: "withinRadius p q r = withinRadius q p r"
  by (simp add: withinRadius_def haversine_sym)

lemma withinRadius_same:
  "point.lat p = point.lat q \<Longrightarrow> point.lng p = point.lng q \<Longrightarrow> withinRadius p q CLUSTER_RADIUS_METERS"
  by (simp add: withinRadius_def haversine_same CLUSTER_RADIUS_METERS_def)

lemma upt_2: "[0..<Suc (Suc 0)] = [0, Suc 0]"
  by (simp add: upt_rec)

lemma findClusters_pair:
  assumes "\<not> invalidCoords p" "\<not> invalidCoords q" "withinRadius p q CLUSTER_RADIUS_METERS"
  shows "findClusters [p, q] = Inr [[p, q]]"
proof -
  have qp: "withinRadius q p CLUSTER_RADIUS_METERS"
    using assms(3) by (simp add: withinRadius_sym)
  have n0: "getNeighbors p 0 [p, q] CLUSTER_RADIUS_METERS = [Suc 0]"
    using assms by (simp add: getNeighbors_def upt_2)
  have n1: "getNeighbors q (Suc 0) [p, q] CLUSTER_RADIUS_METERS = [0]"
    using assms qp by (simp add: getNeighbors_def upt_2)
  have e: "expandCluster [p, q] [Suc 0] {0} [p] = Inr ({Suc 0, 0}, [p, q])"
    by (simp add: expandCluster.simps n1 MINIMUM_CLUSTER_SIZE_def)
  show ?thesis
    by (simp add: findClusters_def enumerate_simps n0 e MINIMUM_CLUSTER_SIZE_def)
qed

subsection \<open>Grouping, rider counts and the loop over the trips\<close>

lemma groupByTrip_foldl_map_of:
  "map_of (foldl (\<lambda>bookingsByTrip b.
              AList.update (tripCode b)
                ((case map_of bookingsByTrip (tripCode b) of None \<Rightarrow> [] | Some bs \<Rightarrow> bs) @ [b])
                bookingsByTrip) al bs) k
   = (if filter (\<lambda>b. tripCode b = k) bs = [] then map_of al k
      else Some ((case map_of al k of None \<Rightarrow> [] | Some x \<Rightarrow> x) @ filter (\<lambda>b. tripCode b = k) bs))"
proof (induction bs arbitrary: al)
  case Nil
  show ?case by simp
next
  case (Cons b bs)
  show ?case
    by (simp add: Cons.IH update_conv' split: option.splits)
qed

lemma groupByTrip_map_of:
  "map_of (groupByTrip bs) k
   = (if filter (\<lambda>b. tripCode b = k) bs = [] then None
      else Some (filter (\<lambda>b. tripCode b = k) bs))"
  unfolding groupByTrip_def by (simp add: groupByTrip_foldl_map_of)

lemma groupByTrip_foldl_distinct:
  "distinct (map fst al) \<Longrightarrow>
   distinct (map fst (foldl (\<lambda>bookingsByTrip b.
              AList.update (tripCode b)
                ((case map_of bookingsByTrip (tripCode b) of None \<Rightarrow> [] | Some bs \<Rightarrow> bs) @ [b])
                bookingsByTrip) al bs))"
  by (induction bs arbitrary: al) (simp_all add: distinct_update)

lemma groupByTrip_distinct: "distinct (map fst (groupByTrip bs))"
  unfolding groupByTrip_def by (rule groupByTrip_foldl_distinct) simp

lemma countRiders_foldl:
  "foldl (\<lambda>totalRidersPerTrip b.
              if tripCode b \<noteq> [] \<and> riderId b \<noteq> []
              then totalRidersPerTrip(tripCode b \<mapsto>
                     insert (riderId b)
                       (case totalRidersPerTrip (tripCode b) of None \<Rightarrow> {} | Some s \<Rightarrow> s))
              else totalRidersPerTrip) m bs tc
   = (if ridersOf bs tc = {} then m tc
      else Some (ridersOf bs tc \<union> (case m tc of None \<Rightarrow> {} | Some s \<Rightarrow> s)))"
proof (induction bs arbitrary: m)
  case Nil
  show ?case by (simp add: ridersOf_def)
next
  case (Cons b bs)
  have r: "ridersOf (b # bs) tc
           = (if tripCode b = tc \<and> tc \<noteq> [] \<and> riderId b \<noteq> [] then {riderId b} else {})
             \<union> ridersOf bs tc"
    by (auto simp: ridersOf_def)
  show ?case
    by (simp add: Cons.IH r split: option.splits)
qed

lemma countRiders_eq:
  "countRiders bs tc = (if ridersOf bs tc = {} then None else Some (ridersOf bs tc))"
  unfolding countRiders_def by (simp add: countRiders_foldl)

lemma processTrip_Inr: "\<exists>r. processTrip nd tot tc bs = Inr r"
proof -
  obtain cs where "findClusters (map toPoint bs) = Inr cs"
    using findClusters_Inr by blast
  then show ?thesis
    by (simp add: processTrip_def Let_def split: list.splits option.splits)
qed

lemma processTrips_eq:
  "distinct (map fst al) \<Longrightarrow>
   processTrips nd tot al res
   = Inr (\<lambda>tc. case map_of al tc of
                 None \<Rightarrow> res tc
               | Some bs \<Rightarrow> (case processTrip (nd tc) tot tc bs of
                               Inr (Some c) \<Rightarrow> Some c
                             | _ \<Rightarrow> res tc))"
proof (induction al arbitrary: res)
  case Nil
  show ?case by simp
next
  case (Cons a al)
  obtain tc bs where a: "a = (tc, bs)" by (cases a)
  from Cons.prems a have d: "distinct (map fst al)" and n: "map_of al tc = None"
    by (auto simp: map_of_eq_None_iff)
  obtain r where r: "processTrip (nd tc) tot tc bs = Inr r"
    using processTrip_Inr by blast
  show ?case
  proof (cases r)
    case None
    with r a n show ?thesis
      by (auto simp: Cons.IH [OF d] intro!: ext split: option.splits)
  next
    case (Some c)
    with r a n show ?thesis
      by (auto simp: Cons.IH [OF d] intro!: ext split: option.splits sum.splits)
  qed
qed

lemma calculateClusters_eq:
  "calculateClusters now newDate bookings trips = Inr (clusterFor now newDate bookings)"
proof -
  have "processTrip nd tot tc [] = Inr None" for nd tot tc
    by (simp add: processTrip_def MINIMUM_CLUSTER_SIZE_def)
  then show ?thesis
    unfolding calculateClusters_def Let_def clusterFor_def recentTripRiders_def
    using processTrip_Inr
    by (auto simp: processTrips_eq [OF groupByTrip_distinct] groupByTrip_map_of
        intro!: ext split: option.splits sum.splits)
qed

lemma invalidCoords_toPoint [simp]: "invalidCoords (toPoint b) = invalidCoords b"
  by (simp add: invalidCoords_def toPoint_def)

lemma withinRadius_toPoint_same:
  "point.lat b1 = point.lat b2 \<Longrightarrow> point.lng b1 = point.lng b2
   \<Longrightarrow> withinRadius (toPoint b1) (toPoint b2) CLUSTER_RADIUS_METERS"
  by (rule withinRadius_same) (simp_all add: toPoint_def)

lemma processTrip_pair:
  assumes "\<not> invalidCoords b1" "\<not> invalidCoords b2"
    and "withinRadius (toPoint b1) (toPoint b2) CLUSTER_RADIUS_METERS"
  shows "processTrip nd tot tc [b1, b2]
         = (case calculateWeightedCenter [toPoint b1, toPoint b2] of
              None \<Rightarrow> Inr None
            | Some c \<Rightarrow>
                Inr (Some \<lparr>cluster.tripCode = tc, center = c,
                  strength = min 1 (2 / real (case tot tc of None \<Rightarrow> 2
                                       | Some s \<Rightarrow> if card s = 0 then 2 else card s)),
                  riderCount = 2,
                  totalRiders = (case tot tc of None \<Rightarrow> 2
                                 | Some s \<Rightarrow> if card s = 0 then 2 else card s),
                  cluster.timestamp = nd,
                  riders = [riderId b1, riderId b2]\<rparr>))"
proof -
  have "findClusters [toPoint b1, toPoint b2] = Inr [[toPoint b1, toPoint b2]]"
    using assms by (intro findClusters_pair) simp_all
  then show ?thesis
    by (simp add: processTrip_def MINIMUM_CLUSTER_SIZE_def largestOf_def Let_def toPoint_def
        split: option.splits)
qed


lemma weight_pos: "weight p = Some w \<Longrightarrow> 0 < w"
  by (auto simp: weight_def split: option.splits)

lemma toNumber_accuracy_toPoint: "\<exists>a. toNumber (accuracy (toPoint b)) = Some a \<and> 0 < a"
  by (cases "accuracy b") (simp_all add: toPoint_def)

lemma weight_toPoint_Some: "weight (toPoint b) \<noteq> None"
  using toNumber_accuracy_toPoint [of b] by (auto simp: weight_def)

lemma weight_toPoint: "\<exists>w. weight (toPoint b) = Some w \<and> 0 < w"
  using weight_toPoint_Some [of b] weight_pos by fastforce

lemma calculateWeightedCenter_pair_same:
  assumes "point.lat b1 = Num la" "point.lng b1 = Num lo"
    and "point.lat b2 = Num la" "point.lng b2 = Num lo"
  shows "calculateWeightedCenter [toPoint b1, toPoint b2]
         = Some \<lparr>center.lat = la, center.lng = lo\<rparr>"
proof -
  obtain w1 w2 where w: "weight (toPoint b1) = Some w1" "0 < w1"
      "weight (toPoint b2) = Some w2" "0 < w2"
    using weight_toPoint by blast
  have c: "point.lat (toPoint b) = point.lat b" "point.lng (toPoint b) = point.lng b" for b
    by (simp_all add: toPoint_def)
  have "(la * w1 + la * w2) / (w1 + w2) = la" "(lo * w1 + lo * w2) / (w1 + w2) = lo"
    using w(2,4) by (simp_all add: distrib_left [symmetric])
  with w show ?thesis
    by (simp add: calculateWeightedCenter_def addWeighted_def c assms isNaN_def)
qed

lemma clusterFor_pair:
  assumes "tripCode b1 = tc" "tripCode b2 = tc"
    and "isRecent (now - 300000) b1" "isRecent (now - 300000) b2"
    and "point.lat b1 = Num la" "point.lng b1 = Num lo"
    and "point.lat b2 = Num la" "point.lng b2 = Num lo"
  shows "clusterFor now nd [b1, b2] tc
         = Some \<lparr>cluster.tripCode = tc, center = \<lparr>center.lat = la, center.lng = lo\<rparr>,
             strength = min 1 (2 / real (case countRiders [b1, b2] tc of None \<Rightarrow> 2
                                         | Some s \<Rightarrow> if card s = 0 then 2 else card s)),
             riderCount = 2,
             totalRiders = (case countRiders [b1, b2] tc of None \<Rightarrow> 2
                            | Some s \<Rightarrow> if card s = 0 then 2 else card s),
             cluster.timestamp = nd tc,
             riders = [riderId b1, riderId b2]\<rparr>"
proof -
  have v: "\<not> invalidCoords b1" "\<not> invalidCoords b2"
    using assms(5-8) by (simp_all add: invalidCoords_def isNaN_def)
  have w: "withinRadius (toPoint b1) (toPoint b2) CLUSTER_RADIUS_METERS"
    using assms(5-8) by (intro withinRadius_toPoint_same) simp_all
  show ?thesis
    using assms(1-4)
    by (simp add: clusterFor_def recentTripRiders_def RECENT_BOOKING_MINUTES_def
        processTrip_pair [OF v w]
        calculateWeightedCenter_pair_same [OF assms(5-8)])
qed

lemma riderAt_simps [simp]:
  "tripCode (riderAt tc rid t la lo) = tc"
  "riderId (riderAt tc rid t la lo) = rid"
  "point.timestamp (riderAt tc rid t la lo) = TsTime t"
  "point.lat (riderAt tc rid t la lo) = Num la"
  "point.lng (riderAt tc rid t la lo) = Num lo"
  "accuracy (riderAt tc rid t la lo) = Num 10"
  by (simp_all add: riderAt_def)

lemma isRecent_riderAt [simp]: "isRecent c (riderAt tc rid t la lo) = (c \<le> t)"
  by (simp add: isRecent_def)


subsection \<open>The latest ping of a trip\<close>

lemma calculateTripHealth_foldl:
  "foldl (\<lambda>tripHealth t.
              tripHealth(code t \<mapsto>
                tripHealthOf now (filter (\<lambda>b. tripCode b = code t) bookings))) m trips tc
   = (if tc \<in> code ` set trips
      then Some (tripHealthOf now (filter (\<lambda>b. tripCode b = tc) bookings)) else m tc)"
  by (induction trips arbitrary: m) auto

lemma calculateTripHealth_eq:
  "calculateTripHealth now bookings trips tc
   = (if tc \<in> code ` set trips
      then Some (tripHealthOf now (filter (\<lambda>b. tripCode b = tc) bookings)) else None)"
  unfolding calculateTripHealth_def by (simp add: calculateTripHealth_foldl)

lemma foldl_laterOf:
  "0 \<le> l0 \<Longrightarrow> s0 = (if 0 < l0 then Some (TsTime l0) else None) \<Longrightarrow>
   foldl laterOf (l0, s0) bs
   = (Max (insert l0 (set (List.map_filter (\<lambda>b. getTime (point.timestamp b)) bs))),
      if 0 < Max (insert l0 (set (List.map_filter (\<lambda>b. getTime (point.timestamp b)) bs)))
      then Some (TsTime (Max (insert l0 (set (List.map_filter (\<lambda>b. getTime (point.timestamp b)) bs)))))
      else None)"
proof (induction bs arbitrary: l0 s0)
  case Nil
  then show ?case by simp
next
  case (Cons b bs)
  let ?T = "set (List.map_filter (\<lambda>b. getTime (point.timestamp b)) bs)"
  show ?case
  proof (cases "point.timestamp b")
    case TsUndefined
    then have "laterOf (l0, s0) b = (l0, s0)"
      by (simp add: laterOf_def)
    with Cons.IH [OF Cons.prems] TsUndefined show ?thesis
      by simp
  next
    case TsInvalid
    then have "laterOf (l0, s0) b = (l0, s0)"
      by (simp add: laterOf_def)
    with Cons.IH [OF Cons.prems] TsInvalid show ?thesis
      by simp
  next
    case (TsTime t)
    show ?thesis
    proof (cases "l0 < t")
      case True
      with Cons.prems have "0 \<le> t" "Some (TsTime t) = (if 0 < t then Some (TsTime t) else None)"
        by simp_all
      from Cons.IH [OF this]
      have "foldl laterOf (t, Some (TsTime t)) bs
            = (Max (insert t ?T), if 0 < Max (insert t ?T)
                 then Some (TsTime (Max (insert t ?T))) else None)" .
      moreover have le: "l0 \<le> Max (insert t ?T)"
      proof -
        have "t \<le> Max (insert t ?T)"
          by (rule Max_ge) simp_all
        with True show ?thesis by linarith
      qed
      moreover have "Max (insert l0 (insert t ?T)) = Max (insert t ?T)"
      proof -
        have "Max (insert l0 (insert t ?T)) = max l0 (Max (insert t ?T))"
          by (rule Max_insert) simp_all
        with le show ?thesis
          by (simp only: max_absorb2)
      qed
      moreover have "laterOf (l0, s0) b = (t, Some (TsTime t))"
        using TsTime True by (simp add: laterOf_def)
      ultimately show ?thesis
        using TsTime by simp
    next
      case False
      have le: "t \<le> Max (insert l0 ?T)"
      proof -
        have "l0 \<le> Max (insert l0 ?T)"
          by (rule Max_ge) simp_all
        with False show ?thesis by linarith
      qed
      have "Max (insert l0 (insert t ?T)) = Max (insert l0 ?T)"
      proof -
        have "Max (insert t (insert l0 ?T)) = max t (Max (insert l0 ?T))"
          by (rule Max_insert) simp_all
        with le have "Max (insert t (insert l0 ?T)) = Max (insert l0 ?T)"
          by (simp only: max_absorb2)
        then show ?thesis
          by (simp only: insert_commute [of l0 t])
      qed
      moreover note le
      moreover have "laterOf (l0, s0) b = (l0, s0)"
        using TsTime False by (simp add: laterOf_def)
      ultimately show ?thesis
        using Cons.IH [OF Cons.prems] TsTime by simp
    qed
  qed
qed

lemma Max_insert0_pos:
  fixes ts :: "int list"
  shows "(0 < Max (insert 0 (set ts))) = (filter (\<lambda>t. 0 < t) ts \<noteq> [])"
proof -
  have "(0 < Max (insert 0 (set ts))) = (\<exists>t\<in>insert 0 (set ts). 0 < t)"
    by (rule Max_gr_iff) simp_all
  then show ?thesis
    by (auto simp: filter_empty_conv)
qed

lemma Max_insert0_eq:
  fixes ts :: "int list"
  assumes "filter (\<lambda>t. 0 < t) ts \<noteq> []"
  shows "Max (insert 0 (set ts)) = Max (set (filter (\<lambda>t. 0 < t) ts))"
proof (rule antisym)
  have pos: "0 < Max (insert 0 (set ts))"
    using assms by (simp only: Max_insert0_pos simp_thms)
  have "Max (insert 0 (set ts)) \<in> insert 0 (set ts)"
    by (rule Max_in) simp_all
  with pos have "Max (insert 0 (set ts)) \<in> set (filter (\<lambda>t. 0 < t) ts)"
    by auto
  then show "Max (insert 0 (set ts)) \<le> Max (set (filter (\<lambda>t. 0 < t) ts))"
    by (intro Max_ge) simp_all
  have "set (filter (\<lambda>t. 0 < t) ts) \<noteq> {}"
    using assms by (simp only: set_empty simp_thms)
  then have "Max (set (filter (\<lambda>t. 0 < t) ts)) \<in> set (filter (\<lambda>t. 0 < t) ts)"
    by (intro Max_in) (rule finite_set)
  then have "Max (set (filter (\<lambda>t. 0 < t) ts)) \<in> insert 0 (set ts)"
    by simp
  then show "Max (set (filter (\<lambda>t. 0 < t) ts)) \<le> Max (insert 0 (set ts))"
    by (intro Max_ge) simp_all
qed

lemma tripHealthOf_status:
  "status (tripHealthOf now bs)
   = (let ts = filter (\<lambda>t. 0 < t) (List.map_filter (\<lambda>b. getTime (point.timestamp b)) bs)
      in if ts = [] then NO_SIGNAL
         else if now - Max (set ts) \<le> 2 * 60 * 1000 then ACTIVE
         else if now - Max (set ts) \<le> 10 * 60 * 1000 then STALE
         else INACTIVE)"
proof (cases "bs = []")
  case True
  then show ?thesis by (simp add: tripHealthOf_def)
next
  case False
  let ?T = "List.map_filter (\<lambda>b. getTime (point.timestamp b)) bs"
  have f: "foldl laterOf (0, None) bs
        = (Max (insert 0 (set ?T)),
           if 0 < Max (insert 0 (set ?T)) then Some (TsTime (Max (insert 0 (set ?T)))) else None)"
    by (rule foldl_laterOf) simp_all
  show ?thesis
  proof (cases "filter (\<lambda>t. 0 < t) ?T = []")
    case True
    then have "\<not> 0 < Max (insert 0 (set ?T))"
      by (simp only: Max_insert0_pos simp_thms)
    with False True show ?thesis
      by (simp add: tripHealthOf_def f)
  next
    case ne: False
    then have pos: "0 < Max (insert 0 (set ?T))"
      by (simp only: Max_insert0_pos simp_thms)
    with False ne show ?thesis
      by (simp add: tripHealthOf_def f Let_def Max_insert0_eq [OF ne])
  qed
qed

lemma tripHealthOf_lastUpdate:
  "lastUpdate (tripHealthOf now bs)
   = (let ts = filter (\<lambda>t. 0 < t) (List.map_filter (\<lambda>b. getTime (point.timestamp b)) bs)
      in if ts = [] then None else Some (TsTime (Max (set ts))))"
proof (cases "bs = []")
  case True
  then show ?thesis by (simp add: tripHealthOf_def)
next
  case False
  let ?T = "List.map_filter (\<lambda>b. getTime (point.timestamp b)) bs"
  have f: "foldl laterOf (0, None) bs
        = (Max (insert 0 (set ?T)),
           if 0 < Max (insert 0 (set ?T)) then Some (TsTime (Max (insert 0 (set ?T)))) else None)"
    by (rule foldl_laterOf) simp_all
  show ?thesis
  proof (cases "filter (\<lambda>t. 0 < t) ?T = []")
    case True
    then have "\<not> 0 < Max (insert 0 (set ?T))"
      by (simp only: Max_insert0_pos simp_thms)
    with False True show ?thesis
      by (simp add: tripHealthOf_def f)
  next
    case ne: False
    then have pos: "0 < Max (insert 0 (set ?T))"
      by (simp only: Max_insert0_pos simp_thms)
    with False ne show ?thesis
      by (simp add: tripHealthOf_def f Let_def Max_insert0_eq [OF ne])
  qed
qed

subsection \<open>The scan refines the procedure of the specification\<close>

lemma getNeighbors_sym:
  assumes "i < length pts" "j \<in> set (getNeighbors (pts ! i) i pts r)"
  shows "i \<in> set (getNeighbors (pts ! j) j pts r)"
  using assms by (auto simp: getNeighbors_def withinRadius_sym [of "pts ! j"] split: if_splits)

lemma isCorePoint_iff: "isCorePoint pts i = (getNeighbors (pts ! i) i pts CLUSTER_RADIUS_METERS \<noteq> [])"
  by (cases "getNeighbors (pts ! i) i pts CLUSTER_RADIUS_METERS")
    (simp_all add: isCorePoint_def MINIMUM_CLUSTER_SIZE_def)

lemma neighbor_isCorePoint:
  assumes "i < length pts" "j \<in> set (getNeighbors (pts ! i) i pts CLUSTER_RADIUS_METERS)"
  shows "isCorePoint pts j"
  using getNeighbors_sym [OF assms] by (auto simp: isCorePoint_iff)

lemma specExpand_drop_assigned:
  "B \<subseteq> A \<Longrightarrow> specExpand pts (filter (\<lambda>j. j \<notin> B) q @ r) A c = specExpand pts (q @ r) A c"
proof (induction q arbitrary: r A c)
  case Nil
  show ?case by simp
next
  case (Cons x q)
  show ?case
  proof (cases "x \<in> A")
    case True
    with Cons.IH [OF Cons.prems, of r c] show ?thesis
      by (simp add: specExpand.simps(2) [of pts x])
  next
    case False
    with Cons.prems have notB: "x \<notin> B" by auto
    let ?nn = "if isCorePoint pts x
               then filter (\<lambda>j. j \<notin> insert x A)
                      (getNeighbors (pts ! x) x pts CLUSTER_RADIUS_METERS)
               else []"
    from Cons.prems have "B \<subseteq> insert x A" by auto
    from Cons.IH [OF this, of "r @ ?nn" "c @ [pts ! x]"] False notB show ?thesis
      by (simp add: specExpand.simps(2) [of pts x])
  qed
qed

lemma expandCluster_specExpand:
  assumes "v = A \<union> N" "\<forall>j\<in>N. \<not> isCorePoint pts j"
    and "\<forall>j\<in>set q. j < length pts \<and> isCorePoint pts j"
  shows "expandCluster pts q v c
         = Inr (case specExpand pts q A c of (A', c') \<Rightarrow> (A' \<union> N, c'))"
  using assms
proof (induction pts q v c arbitrary: A rule: expandCluster.induct)
  case (1 points visited currentClusterPoints)
  then show ?case
    by (simp add: expandCluster.simps specExpand.simps)
next
  case (2 points neighborIndex queue visited currentClusterPoints)
  let ?nn = "getNeighbors (points ! neighborIndex) neighborIndex points CLUSTER_RADIUS_METERS"
  from 2(5) have lt: "neighborIndex < length points" and core: "isCorePoint points neighborIndex"
    and rest: "\<forall>j\<in>set queue. j < length points \<and> isCorePoint points j"
    by simp_all
  from core have core': "MINIMUM_CLUSTER_SIZE \<le> length ?nn + 1"
    by (simp add: isCorePoint_def)
  show ?case
  proof (cases "neighborIndex \<in> visited")
    case True
    with 2(3,4) core have inA: "neighborIndex \<in> A" by auto
    with 2(1) [OF True 2(3,4) rest] True show ?thesis
      by (simp add: expandCluster.simps(2) [of points neighborIndex]
          specExpand.simps(2) [of points neighborIndex])
  next
    case False
    with 2(3) have notA: "neighborIndex \<notin> A" by simp
    let ?Q = "queue @ filter (\<lambda>idx. idx \<notin> insert neighborIndex visited) ?nn"
    have v': "insert neighborIndex visited = insert neighborIndex A \<union> N"
      using 2(3) by simp
    have nn: "\<forall>j\<in>set ?nn. j < length points \<and> isCorePoint points j"
      using lt by (auto dest: getNeighbors_lt neighbor_isCorePoint)
    with rest have Q: "\<forall>j\<in>set ?Q. j < length points \<and> isCorePoint points j"
      by auto
    have Qeq: "(if MINIMUM_CLUSTER_SIZE \<le> length ?nn + 1 then ?Q else queue) = ?Q"
      using core' by simp
    from 2(2) [OF False _ refl refl v' 2(4)] lt Q
    have ih: "expandCluster points ?Q (insert neighborIndex visited)
                (currentClusterPoints @ [points ! neighborIndex])
              = Inr (case specExpand points ?Q (insert neighborIndex A)
                            (currentClusterPoints @ [points ! neighborIndex]) of
                       (A', c') \<Rightarrow> (A' \<union> N, c'))"
      by (simp only: Qeq not_le simp_thms)
    have f: "filter (\<lambda>idx. idx \<notin> insert neighborIndex visited) ?nn
             = filter (\<lambda>j. j \<notin> insert neighborIndex A) ?nn"
      using nn 2(3,4) by (intro filter_cong) auto
    have "specExpand points (neighborIndex # queue) A currentClusterPoints
          = specExpand points (queue @ filter (\<lambda>j. j \<notin> insert neighborIndex A) ?nn)
              (insert neighborIndex A) (currentClusterPoints @ [points ! neighborIndex])"
      using notA core by (simp add: specExpand.simps(2) [of points neighborIndex])
    also have "\<dots> = specExpand points ?Q (insert neighborIndex A)
                       (currentClusterPoints @ [points ! neighborIndex])"
      by (simp only: f)
    finally have "specExpand points (neighborIndex # queue) A currentClusterPoints
          = specExpand points ?Q (insert neighborIndex A)
              (currentClusterPoints @ [points ! neighborIndex])" .
    with False lt core' ih show ?thesis
      by (simp add: expandCluster.simps(2) [of points neighborIndex] Let_def)
  qed
qed

lemma scanPoints_specScan:
  assumes "v = A \<union> N" "\<forall>j\<in>N. \<not> isCorePoint pts j" "\<forall>i\<in>set idxs. i < length pts"
  shows "scanPoints pts (map (\<lambda>i. (i, pts ! i)) idxs) v cs = Inr (specScan pts idxs A cs)"
  using assms
proof (induction idxs arbitrary: v A N cs)
  case Nil
  show ?case by simp
next
  case (Cons i idxs)
  let ?nn = "getNeighbors (pts ! i) i pts CLUSTER_RADIUS_METERS"
  from Cons.prems(3) have lt: "i < length pts" and rest: "\<forall>i\<in>set idxs. i < length pts"
    by simp_all
  show ?case
  proof (cases "i \<in> A")
    case True
    with Cons.IH [OF Cons.prems(1,2) rest] Cons.prems(1) show ?thesis
      by simp
  next
    case notA: False
    show ?thesis
    proof (cases "i \<in> N")
      case True
      with Cons.prems(2) have "\<not> isCorePoint pts i" by simp
      with Cons.IH [OF Cons.prems(1,2) rest] Cons.prems(1) True notA show ?thesis
        by simp
    next
      case notN: False
      with notA Cons.prems(1) have notv: "i \<notin> v" by simp
      show ?thesis
      proof (cases "isCorePoint pts i")
        case core: True
        then have core': "MINIMUM_CLUSTER_SIZE \<le> length ?nn + 1"
          by (simp add: isCorePoint_def)
        obtain A' c' where s: "specExpand pts ?nn (insert i A) [pts ! i] = (A', c')"
          by (cases "specExpand pts ?nn (insert i A) [pts ! i]")
        have nn: "\<forall>j\<in>set ?nn. j < length pts \<and> isCorePoint pts j"
          using lt by (auto dest: getNeighbors_lt neighbor_isCorePoint)
        have v': "insert i v = insert i A \<union> N"
          using Cons.prems(1) by simp
        from expandCluster_specExpand [OF v' Cons.prems(2) nn, of "[pts ! i]"] s
        have e: "expandCluster pts ?nn (insert i v) [pts ! i] = Inr (A' \<union> N, c')"
          by simp
        have "specExpand pts (filter (\<lambda>j. j \<notin> insert i A) ?nn) (insert i A) [pts ! i]
              = specExpand pts ?nn (insert i A) [pts ! i]"
          using specExpand_drop_assigned [of "insert i A" "insert i A" pts ?nn "[]"] by simp
        with s have s': "specExpand pts (filter (\<lambda>j. j \<notin> insert i A) ?nn) (insert i A) [pts ! i]
                         = (A', c')"
          by simp
        from Cons.IH [OF refl Cons.prems(2) rest, of A' "cs @ [c']"]
        show ?thesis
          using notv notA core core' e s' by (simp add: Let_def)
      next
        case noise: False
        then have noise': "\<not> MINIMUM_CLUSTER_SIZE \<le> length ?nn + 1"
          by (simp add: isCorePoint_def)
        have v': "insert i v = A \<union> insert i N"
          using Cons.prems(1) by simp
        have N': "\<forall>j\<in>insert i N. \<not> isCorePoint pts j"
          using noise Cons.prems(2) by simp
        from Cons.IH [OF v' N' rest, of cs]
        show ?thesis
          using notv notA noise noise' by (simp add: Let_def)
      qed
    qed
  qed
qed

lemma enumerate_nth: "enumerate 0 pts = map (\<lambda>i. (i, pts ! i)) [0..<length pts]"
  by (rule nth_equalityI) (simp_all add: nth_enumerate_eq)

lemma findClusters_specClusters: "findClusters pts = Inr (specClusters pts)"
  unfolding findClusters_def specClusters_def enumerate_nth
  by (rule scanPoints_specScan [where N = "{}"]) simp_all

lemma findClusters_three_close:
  assumes v: "\<not> invalidCoords p" "\<not> invalidCoords q" "\<not> invalidCoords r"
    and c: "withinRadius p q CLUSTER_RADIUS_METERS" "withinRadius p r CLUSTER_RADIUS_METERS"
      "withinRadius q r CLUSTER_RADIUS_METERS"
  shows "findClusters [p, q, r] = Inr [[p, q, r]]"
proof -
  note sym = withinRadius_sym [of q p] withinRadius_sym [of r p] withinRadius_sym [of r q]
  have u: "[0..<Suc (Suc (Suc 0))] = [0, Suc 0, Suc (Suc 0)]"
    by (simp add: upt_rec)
  have n0: "getNeighbors p 0 [p, q, r] CLUSTER_RADIUS_METERS = [Suc 0, Suc (Suc 0)]"
    using v c by (simp add: getNeighbors_def u)
  have n1: "getNeighbors q (Suc 0) [p, q, r] CLUSTER_RADIUS_METERS = [0, Suc (Suc 0)]"
    using v c by (simp add: getNeighbors_def u sym)
  have n2: "getNeighbors r (Suc (Suc 0)) [p, q, r] CLUSTER_RADIUS_METERS = [0, Suc 0]"
    using v c by (simp add: getNeighbors_def u sym)
  have e: "expandCluster [p, q, r] [Suc 0, Suc (Suc 0)] {0} [p]
           = Inr ({Suc (Suc 0), Suc 0, 0}, [p, q, r])"
    by (simp add: expandCluster.simps n1 n2 MINIMUM_CLUSTER_SIZE_def)
  show ?thesis
    by (simp add: findClusters_def enumerate_simps n0 e MINIMUM_CLUSTER_SIZE_def)
qed

subsection \<open>The weighted centre\<close>

lemma toNumber_num: "toNumber v = Some a \<Longrightarrow> num v = a"
  by (cases v) simp_all

lemma weight_eq:
  "weight p = (if toNumber (accuracy p) = None then None else Some (inverseAccuracy p))"
  by (auto simp: weight_def inverseAccuracy_def toNumber_num split: option.splits)

lemma inverseAccuracy_pos: "0 < inverseAccuracy p"
  by (simp add: inverseAccuracy_def)

lemma addWeighted_eq:
  "addWeighted (a, b, c) p
   = (if usable p
      then (a + num (point.lat p) * inverseAccuracy p,
            b + num (point.lng p) * inverseAccuracy p, c + inverseAccuracy p)
      else (a, b, c))"
  by (auto simp: addWeighted_def weight_eq usable_def invalidCoords_def)

lemma foldl_addWeighted:
  "foldl addWeighted (a, b, c) ps
   = (a + (\<Sum>p\<leftarrow>filter usable ps. num (point.lat p) * inverseAccuracy p),
      b + (\<Sum>p\<leftarrow>filter usable ps. num (point.lng p) * inverseAccuracy p),
      c + (\<Sum>p\<leftarrow>filter usable ps. inverseAccuracy p))"
  by (induction ps arbitrary: a b c) (simp_all add: addWeighted_eq)

lemma sum_inverseAccuracy_pos: "ps \<noteq> [] \<Longrightarrow> 0 < (\<Sum>p\<leftarrow>ps. inverseAccuracy p)"
proof (induction ps)
  case Nil
  then show ?case by simp
next
  case (Cons p ps)
  have "0 \<le> (\<Sum>p\<leftarrow>ps. inverseAccuracy p)"
    by (rule sum_list_nonneg) (auto intro: less_imp_le inverseAccuracy_pos)
  with inverseAccuracy_pos [of p] show ?case
    by simp
qed

lemma foldl_plain:
  "foldl (\<lambda>(sumLat, sumLng) p. (sumLat + num (point.lat p), sumLng + num (point.lng p)))
     (a, b) ps
   = (a + (\<Sum>p\<leftarrow>ps. num (point.lat p)), b + (\<Sum>p\<leftarrow>ps. num (point.lng p)))"
  by (induction ps arbitrary: a b) simp_all

lemma validCoords_filter:
  "filter (\<lambda>p. typeofNumber (point.lat p) \<and> typeofNumber (point.lng p)
                \<and> \<not> isNaN (point.lat p) \<and> \<not> isNaN (point.lng p)) ps
   = filter (\<lambda>p. \<not> invalidCoords p) ps"
  by (rule filter_cong) (auto simp: invalidCoords_def)


lemma calculateWeightedCenter_eq:
  "calculateWeightedCenter points =
     (let weighted = filter usable points;
          valid = filter (\<lambda>p. \<not> invalidCoords p) points
      in if weighted \<noteq> []
         then Some \<lparr>center.lat = (\<Sum>p\<leftarrow>weighted. num (point.lat p) * inverseAccuracy p)
                                 / (\<Sum>p\<leftarrow>weighted. inverseAccuracy p),
                    center.lng = (\<Sum>p\<leftarrow>weighted. num (point.lng p) * inverseAccuracy p)
                                 / (\<Sum>p\<leftarrow>weighted. inverseAccuracy p)\<rparr>
         else if valid \<noteq> []
         then Some \<lparr>center.lat = (\<Sum>p\<leftarrow>valid. num (point.lat p)) / real (length valid),
                    center.lng = (\<Sum>p\<leftarrow>valid. num (point.lng p)) / real (length valid)\<rparr>
         else None)"
proof (cases "points = []")
  case True
  then show ?thesis by (simp add: calculateWeightedCenter_def)
next
  case False
  show ?thesis
  proof (cases "filter usable points = []")
    case True
    with False show ?thesis
      by (simp add: calculateWeightedCenter_def foldl_addWeighted validCoords_filter
          foldl_plain Let_def)
  next
    case ne: False
    from sum_inverseAccuracy_pos [OF ne]
    have "(\<Sum>p\<leftarrow>filter usable points. inverseAccuracy p) \<noteq> 0" by simp
    with False ne show ?thesis
      by (simp add: calculateWeightedCenter_def foldl_addWeighted Let_def)
  qed
qed


subsection \<open>The largest cluster and the record stored for a trip\<close>

lemma foldl_largest:
  "\<exists>earlier later.
      a # cs = earlier @ foldl (\<lambda>largest current. if length largest < length current
                                    then current else largest) a cs # later
      \<and> (\<forall>x\<in>set earlier. length x < length (foldl (\<lambda>largest current.
              if length largest < length current then current else largest) a cs))
      \<and> (\<forall>x\<in>set later. length x \<le> length (foldl (\<lambda>largest current.
              if length largest < length current then current else largest) a cs))"
proof (induction cs arbitrary: a)
  case Nil
  show ?case
    by (intro exI [of _ "[]"]) simp
next
  case (Cons x xs)
  let ?f = "\<lambda>largest current. if length largest < length current then current else largest"
  show ?case
  proof (cases "length a < length x")
    case True
    define r where "r = foldl ?f x xs"
    from Cons.IH [of x] obtain earlier later where
      d: "x # xs = earlier @ r # later"
      and e: "\<forall>y\<in>set earlier. length y < length r"
      and l: "\<forall>y\<in>set later. length y \<le> length r"
      unfolding r_def by blast
    have "length x \<le> length r"
    proof (cases earlier)
      case Nil
      with d show ?thesis by simp
    next
      case (Cons y ys)
      with d e show ?thesis by auto
    qed
    with True have a: "length a < length r" by simp
    have fold: "foldl ?f a (x # xs) = r"
      using True by (simp add: r_def)
    from d e l a show ?thesis
      unfolding fold by (intro exI [of _ "a # earlier"] exI [of _ later]) simp
  next
    case False
    define r where "r = foldl ?f a xs"
    from Cons.IH [of a] obtain earlier later where
      d: "a # xs = earlier @ r # later"
      and e: "\<forall>y\<in>set earlier. length y < length r"
      and l: "\<forall>y\<in>set later. length y \<le> length r"
      unfolding r_def by blast
    have fold: "foldl ?f a (x # xs) = r"
      using False by (simp add: r_def)
    show ?thesis
    proof (cases earlier)
      case Nil
      with d have "r = a" "later = xs" by simp_all
      with False l show ?thesis
        unfolding fold by (intro exI [of _ "[]"] exI [of _ "x # xs"]) simp
    next
      case (Cons y ys)
      with d have y: "y = a" and xs: "xs = ys @ r # later" by simp_all
      from e Cons y have "length a < length r" by simp
      with False have "length x < length r" by simp
      with e l Cons y xs show ?thesis
        unfolding fold by (intro exI [of _ "a # x # ys"] exI [of _ later]) auto
    qed
  qed
qed

lemma largestOf_first_max:
  "\<exists>earlier later.
      first # others = earlier @ largestOf first others # later
      \<and> (\<forall>x\<in>set earlier. length x < length (largestOf first others))
      \<and> (\<forall>x\<in>set later. length x \<le> length (largestOf first others))"
  unfolding largestOf_def by (rule foldl_largest)

lemma clusterFor_Some:
  assumes "clusterFor now newDate bookings tc = Some c"
  shows "\<exists>first others.
           findClusters (map toPoint (recentTripRiders now bookings tc)) = Inr (first # others)
           \<and> riderCount c = length (largestOf first others)
           \<and> riders c = map riderId (largestOf first others)
           \<and> calculateWeightedCenter (largestOf first others) = Some (center c)
           \<and> totalRiders c = (case countRiders bookings tc of
                                 None \<Rightarrow> length (largestOf first others)
                               | Some s \<Rightarrow> if card s = 0 then length (largestOf first others)
                                           else card s)
           \<and> strength c = min 1 (if 0 < totalRiders c
                                  then real (riderCount c) / real (totalRiders c) else 0)
           \<and> cluster.tripCode c = tc \<and> cluster.timestamp c = newDate tc"
  using assms
  by (auto simp: clusterFor_def processTrip_def Let_def
      split: sum.splits if_splits list.splits option.splits)


lemma expandCluster_grows:
  "expandCluster pts q v c = Inr (v', c') \<Longrightarrow> length c \<le> length c'"
proof (induction pts q v c rule: expandCluster.induct)
  case (1 points visited currentClusterPoints)
  then show ?case by (simp add: expandCluster.simps)
next
  case (2 points neighborIndex queue visited currentClusterPoints)
  show ?case
  proof (cases "neighborIndex \<in> visited")
    case True
    with 2 show ?thesis by (simp add: expandCluster.simps)
  next
    case False
    with 2(3) have lt: "neighborIndex < length points"
      by (simp add: expandCluster.simps(2) [of points neighborIndex] split: if_splits)
    let ?nn = "getNeighbors (points ! neighborIndex) neighborIndex points CLUSTER_RADIUS_METERS"
    let ?q = "if MINIMUM_CLUSTER_SIZE \<le> length ?nn + 1
              then queue @ filter (\<lambda>idx. idx \<notin> insert neighborIndex visited) ?nn else queue"
    from 2(3) False lt
    have "expandCluster points ?q (insert neighborIndex visited)
            (currentClusterPoints @ [points ! neighborIndex]) = Inr (v', c')"
      by (simp add: expandCluster.simps(2) [of points neighborIndex] Let_def)
    with 2(2) [OF False _ refl refl] lt
    have "length (currentClusterPoints @ [points ! neighborIndex]) \<le> length c'"
      by simp
    then show ?thesis by simp
  qed
qed

lemma scanPoints_nonempty:
  "scanPoints pts rest v cs = Inr cs' \<Longrightarrow> \<forall>c\<in>set cs. c \<noteq> [] \<Longrightarrow> \<forall>c\<in>set cs'. c \<noteq> []"
proof (induction pts rest v cs rule: scanPoints.induct)
  case (1 points visited tripSpecificClusters)
  then show ?case by simp
next
  case (2 points index p rest visited tripSpecificClusters)
  let ?nn = "getNeighbors p index points CLUSTER_RADIUS_METERS"
  show ?case
  proof (cases "index \<in> visited")
    case True
    with 2(1) [OF True _ 2(5)] 2(4) show ?thesis by simp
  next
    case False
    show ?thesis
    proof (cases "MINIMUM_CLUSTER_SIZE \<le> length ?nn + 1")
      case core: True
      show ?thesis
      proof (cases "expandCluster points ?nn (insert index visited) [p]")
        case (Inl e)
        with 2(4) False core show ?thesis by (simp add: Let_def)
      next
        case (Inr r)
        obtain v' c' where r: "r = (v', c')" by (cases r)
        with Inr have e: "expandCluster points ?nn (insert index visited) [p] = Inr (v', c')"
          by simp
        from expandCluster_grows [OF e] have c': "c' \<noteq> []" by auto
        from 2(4) False core e
        have "scanPoints points rest v' (tripSpecificClusters @ [c']) = Inr cs'"
          by (simp add: Let_def)
        from 2(2) [OF False refl core e refl this] c' 2(5)
        show ?thesis by simp
      qed
    next
      case noise: False
      from 2(4) False noise
      have "scanPoints points rest (insert index visited) tripSpecificClusters = Inr cs'"
        by (simp add: Let_def)
      from 2(3) [OF False refl noise this 2(5)]
      show ?thesis .
    qed
  qed
qed

lemma findClusters_nonempty: "findClusters pts = Inr cs \<Longrightarrow> c \<in> set cs \<Longrightarrow> c \<noteq> []"
  using scanPoints_nonempty [of pts "enumerate 0 pts" "{}" "[]" cs]
  by (simp add: findClusters_def)

lemma largestOf_in: "largestOf first others \<in> set (first # others)"
proof -
  from largestOf_first_max [of first others] obtain earlier later where
    "first # others = earlier @ largestOf first others # later" by blast
  then have "set (first # others) = set (earlier @ largestOf first others # later)"
    by (simp only:)
  then show ?thesis by simp
qed

lemma finite_ridersOf: "finite (ridersOf bookings tc)"
  by (simp add: ridersOf_def)

lemma set_recentTripRiders:
  "set (recentTripRiders now bookings tc) \<subseteq> {b \<in> set bookings. tripCode b = tc}"
  by (auto simp: recentTripRiders_def)


subsection \<open>Two pairs of riders far apart\<close>

lemma haversine_antipodal: "calculateHaversineDistance 0 0 0 180 = 6371000 * pi"
  by (simp add: calculateHaversineDistance_def haversine_a_def atan2_def)

lemma not_withinRadius_antipodal:
  assumes "point.lat p = Num 0" "point.lng p = Num 0" "point.lat q = Num 0" "point.lng q = Num 180"
  shows "\<not> withinRadius p q CLUSTER_RADIUS_METERS" "\<not> withinRadius q p CLUSTER_RADIUS_METERS"
proof -
  have "1000 < 6371000 * pi"
    using pi_ge_two by simp
  then show "\<not> withinRadius p q CLUSTER_RADIUS_METERS"
    using assms by (simp add: withinRadius_def haversine_antipodal CLUSTER_RADIUS_METERS_def)
  then show "\<not> withinRadius q p CLUSTER_RADIUS_METERS"
    by (simp add: withinRadius_sym)
qed

lemma findClusters_two_pairs:
  assumes v: "\<not> invalidCoords p" "\<not> invalidCoords q" "\<not> invalidCoords r" "\<not> invalidCoords s"
    and c: "withinRadius p q CLUSTER_RADIUS_METERS" "withinRadius r s CLUSTER_RADIUS_METERS"
    and f: "\<not> withinRadius p r CLUSTER_RADIUS_METERS" "\<not> withinRadius p s CLUSTER_RADIUS_METERS"
      "\<not> withinRadius q r CLUSTER_RADIUS_METERS" "\<not> withinRadius q s CLUSTER_RADIUS_METERS"
  shows "findClusters [p, q, r, s] = Inr [[p, q], [r, s]]"
proof -
  note sym = withinRadius_sym [of q p] withinRadius_sym [of s r] withinRadius_sym [of r p]
    withinRadius_sym [of s p] withinRadius_sym [of r q] withinRadius_sym [of s q]
  have u: "[0..<Suc (Suc (Suc (Suc 0)))] = [0, Suc 0, Suc (Suc 0), Suc (Suc (Suc 0))]"
    by (simp add: upt_rec)
  have n0: "getNeighbors p 0 [p, q, r, s] CLUSTER_RADIUS_METERS = [Suc 0]"
    using v c f by (simp add: getNeighbors_def u)
  have n1: "getNeighbors q (Suc 0) [p, q, r, s] CLUSTER_RADIUS_METERS = [0]"
    using v c f by (simp add: getNeighbors_def u sym)
  have n2: "getNeighbors r (Suc (Suc 0)) [p, q, r, s] CLUSTER_RADIUS_METERS = [Suc (Suc (Suc 0))]"
    using v c f by (simp add: getNeighbors_def u sym)
  have n3: "getNeighbors s (Suc (Suc (Suc 0))) [p, q, r, s] CLUSTER_RADIUS_METERS = [Suc (Suc 0)]"
    using v c f by (simp add: getNeighbors_def u sym)
  have e0: "expandCluster [p, q, r, s] [Suc 0] {0} [p] = Inr ({Suc 0, 0}, [p, q])"
    by (simp add: expandCluster.simps n1 MINIMUM_CLUSTER_SIZE_def)
  have e2: "expandCluster [p, q, r, s] [Suc (Suc (Suc 0))] {Suc (Suc 0), Suc 0, 0} [r]
            = Inr ({Suc (Suc (Suc 0)), Suc (Suc 0), Suc 0, 0}, [r, s])"
    by (simp add: expandCluster.simps n3 MINIMUM_CLUSTER_SIZE_def)
  show ?thesis
    by (simp add: findClusters_def enumerate_simps n0 n2 e0 e2 MINIMUM_CLUSTER_SIZE_def)
qed

lemma toPoint_fields [simp]:
  "point.lat (toPoint b) = point.lat b" "point.lng (toPoint b) = point.lng b"
  "riderId (toPoint b) = riderId b" "point.timestamp (toPoint b) = point.timestamp b"
  by (simp_all add: toPoint_def)

lemma findClusters_four_riders:
  "findClusters (map toPoint
     [riderAt tc r1 t1 0 0, riderAt tc r2 t2 0 0, riderAt tc r3 t3 0 180, riderAt tc r4 t4 0 180])
   = Inr [[toPoint (riderAt tc r1 t1 0 0), toPoint (riderAt tc r2 t2 0 0)],
          [toPoint (riderAt tc r3 t3 0 180), toPoint (riderAt tc r4 t4 0 180)]]"
proof -
  have v: "\<not> invalidCoords (toPoint (riderAt tc r t la lo))" for r t la lo
    by (simp add: invalidCoords_def isNaN_def)
  show ?thesis
    unfolding list.map
    by (intro findClusters_two_pairs v withinRadius_same not_withinRadius_antipodal)
      simp_all
qed

lemma clusterFor_four_riders:
  "clusterFor 1000000 (\<lambda>tc. 1000000)
     [riderAt ''T1'' ''R1'' 1000000 0 0, riderAt ''T1'' ''R2'' 1000000 0 0,
      riderAt ''T1'' ''R3'' 1000000 0 180, riderAt ''T1'' ''R4'' 1000000 0 180] ''T1''
   = Some \<lparr>cluster.tripCode = ''T1'', center = \<lparr>center.lat = 0, center.lng = 0\<rparr>,
       strength = 1 / 2, riderCount = 2, totalRiders = 4, cluster.timestamp = 1000000,
       riders = [''R1'', ''R2'']\<rparr>"
proof -
  have r: "recentTripRiders 1000000
     [riderAt ''T1'' ''R1'' 1000000 0 0, riderAt ''T1'' ''R2'' 1000000 0 0,
      riderAt ''T1'' ''R3'' 1000000 0 180, riderAt ''T1'' ''R4'' 1000000 0 180] ''T1''
    = [riderAt ''T1'' ''R1'' 1000000 0 0, riderAt ''T1'' ''R2'' 1000000 0 0,
      riderAt ''T1'' ''R3'' 1000000 0 180, riderAt ''T1'' ''R4'' 1000000 0 180]"
    by (simp add: recentTripRiders_def RECENT_BOOKING_MINUTES_def)
  have n: "countRiders
     [riderAt ''T1'' ''R1'' 1000000 0 0, riderAt ''T1'' ''R2'' 1000000 0 0,
      riderAt ''T1'' ''R3'' 1000000 0 180, riderAt ''T1'' ''R4'' 1000000 0 180] ''T1''
    = Some {''R4'', ''R3'', ''R2'', ''R1''}"
    by (simp add: countRiders_def)
  have w: "calculateWeightedCenter
             [toPoint (riderAt ''T1'' ''R1'' 1000000 0 0), toPoint (riderAt ''T1'' ''R2'' 1000000 0 0)]
           = Some \<lparr>center.lat = 0, center.lng = 0\<rparr>"
    by (rule calculateWeightedCenter_pair_same) simp_all
  show ?thesis
    unfolding clusterFor_def r processTrip_def findClusters_four_riders n
    by (simp add: MINIMUM_CLUSTER_SIZE_def largestOf_def w Let_def)
qed

subsection \<open>A point without valid coordinates does not change the clusters\<close>

lemma shiftAt_neq [simp]: "shiftAt k i \<noteq> k"
  by (simp add: shiftAt_def)

lemma shiftAt_inj [simp]: "(shiftAt k i = shiftAt k j) = (i = j)"
  by (auto simp: shiftAt_def)









lemma unshiftAt_shiftAt [simp]: "unshiftAt k (shiftAt k i) = i"
  by (simp add: shiftAt_def unshiftAt_def)










subsection \<open>Malformed pings\<close>

lemma findClusters_short: "length pts < 2 \<Longrightarrow> findClusters pts = Inr []"
proof (cases pts)
  case Nil
  then show ?thesis by (simp add: findClusters_def)
next
  case (Cons p ps)
  assume "length pts < 2"
  with Cons have ps: "ps = []" by simp
  have "getNeighbors p 0 [p] CLUSTER_RADIUS_METERS = []"
    by (simp add: getNeighbors_def)
  with Cons ps show ?thesis
    by (simp add: findClusters_def enumerate_simps MINIMUM_CLUSTER_SIZE_def)
qed











subsection \<open>The members of a cluster\<close>

text \<open>
  Every member of a cluster is one of the points and has valid coordinates: the starting
  point has a neighbour, and \<^verbatim>\<open>getNeighbors\<close> returns only indices of points with valid
  coordinates, and none for a point without them. So the centre of the largest cluster is
  always the weighted average over all its members.
\<close>

lemma getNeighbors_valid:
  "i \<in> set (getNeighbors p k pts r) \<Longrightarrow> i < length pts \<and> \<not> invalidCoords (pts ! i)"
  by (auto simp: getNeighbors_def split: if_splits)

lemma getNeighbors_nonempty_valid:
  "getNeighbors p k pts r \<noteq> [] \<Longrightarrow> \<not> invalidCoords p"
  by (auto simp: getNeighbors_def split: if_splits)

lemma specExpand_valid:
  assumes "\<forall>i\<in>set queue. i < length points \<and> \<not> invalidCoords (points ! i)"
    and "\<forall>p\<in>set members. p \<in> set points \<and> \<not> invalidCoords p"
  shows "\<forall>p\<in>set (snd (specExpand points queue assigned members)).
           p \<in> set points \<and> \<not> invalidCoords p"
  using assms
proof (induction points queue assigned members rule: specExpand.induct)
  case (1 points assigned members)
  then show ?case by (simp add: specExpand.simps)
next
  case (2 points i rest assigned members)
  show ?case
  proof (cases "i \<in> assigned")
    case True
    with 2 show ?thesis by (simp add: specExpand.simps(2) [of points i])
  next
    case False
    let ?nn = "if isCorePoint points i
               then filter (\<lambda>j. j \<notin> insert i assigned)
                      (getNeighbors (points ! i) i points CLUSTER_RADIUS_METERS)
               else []"
    have q: "\<forall>j\<in>set (rest @ ?nn). j < length points \<and> \<not> invalidCoords (points ! j)"
      using 2(3) by (auto dest: getNeighbors_valid)
    have m: "\<forall>p\<in>set (members @ [points ! i]). p \<in> set points \<and> \<not> invalidCoords p"
      using 2(3,4) by auto
    from 2(2) [OF False q m] False show ?thesis
      by (simp add: specExpand.simps(2) [of points i])
  qed
qed

lemma specScan_valid:
  assumes "\<forall>i\<in>set idxs. i < length points"
    and "\<forall>c\<in>set clusters. \<forall>p\<in>set c. p \<in> set points \<and> \<not> invalidCoords p"
  shows "\<forall>c\<in>set (specScan points idxs assigned clusters).
           \<forall>p\<in>set c. p \<in> set points \<and> \<not> invalidCoords p"
  using assms
proof (induction idxs arbitrary: assigned clusters)
  case Nil
  then show ?case by simp
next
  case (Cons i rest)
  from Cons.prems(1) have i: "i < length points" and rest: "\<forall>j\<in>set rest. j < length points"
    by simp_all
  show ?case
  proof (cases "i \<notin> assigned \<and> isCorePoint points i")
    case False
    with Cons.IH [OF rest Cons.prems(2)] show ?thesis by auto
  next
    case True
    let ?q = "filter (\<lambda>j. j \<notin> insert i assigned)
                (getNeighbors (points ! i) i points CLUSTER_RADIUS_METERS)"
    obtain A' members where e: "specExpand points ?q (insert i assigned) [points ! i] = (A', members)"
      by (cases "specExpand points ?q (insert i assigned) [points ! i]")
    have "\<not> invalidCoords (points ! i)"
      using True by (auto simp: isCorePoint_iff dest: getNeighbors_nonempty_valid)
    with i have "\<forall>p\<in>set [points ! i]. p \<in> set points \<and> \<not> invalidCoords p"
      by simp
    moreover have "\<forall>j\<in>set ?q. j < length points \<and> \<not> invalidCoords (points ! j)"
      by (auto dest: getNeighbors_valid)
    ultimately have "\<forall>p\<in>set (snd (specExpand points ?q (insert i assigned) [points ! i])).
                       p \<in> set points \<and> \<not> invalidCoords p"
      by (rule specExpand_valid [rotated])
    with e Cons.prems(2)
    have "\<forall>c\<in>set (clusters @ [members]). \<forall>p\<in>set c. p \<in> set points \<and> \<not> invalidCoords p"
      by auto
    from Cons.IH [OF rest this] True e show ?thesis
      by simp
  qed
qed

lemma findClusters_valid:
  assumes "findClusters pts = Inr cs" "c \<in> set cs" "p \<in> set c"
  shows "p \<in> set pts \<and> \<not> invalidCoords p"
proof -
  from assms(1) have "cs = specClusters pts"
    by (simp add: findClusters_specClusters)
  with specScan_valid [of "[0..<length pts]" pts "[]" "{}"] assms(2,3) show ?thesis
    by (auto simp: specClusters_def)
qed

lemma calculateWeightedCenter_usable:
  assumes "ps \<noteq> []" "\<forall>p\<in>set ps. usable p"
  shows "calculateWeightedCenter ps =
           Some \<lparr>center.lat = (\<Sum>p\<leftarrow>ps. num (point.lat p) * inverseAccuracy p)
                               / (\<Sum>p\<leftarrow>ps. inverseAccuracy p),
                  center.lng = (\<Sum>p\<leftarrow>ps. num (point.lng p) * inverseAccuracy p)
                               / (\<Sum>p\<leftarrow>ps. inverseAccuracy p)\<rparr>"
proof -
  from assms(2) have "filter usable ps = ps"
    by (simp add: filter_id_conv)
  with assms(1) show ?thesis
    by (simp add: calculateWeightedCenter_eq Let_def)
qed

lemma usable_toPoint: "\<not> invalidCoords (toPoint b) \<Longrightarrow> usable (toPoint b)"
  using toNumber_accuracy_toPoint [of b] by (auto simp: usable_def)

lemma winning_cluster:
  assumes "findClusters (map toPoint tripBookings) = Inr (first # others)"
  shows "largestOf first others \<noteq> []"
    and "\<forall>p\<in>set (largestOf first others). p \<in> toPoint ` set tripBookings \<and> \<not> invalidCoords p"
    and "calculateWeightedCenter (largestOf first others) =
           Some \<lparr>center.lat = (\<Sum>p\<leftarrow>largestOf first others. num (point.lat p) * inverseAccuracy p)
                               / (\<Sum>p\<leftarrow>largestOf first others. inverseAccuracy p),
                  center.lng = (\<Sum>p\<leftarrow>largestOf first others. num (point.lng p) * inverseAccuracy p)
                               / (\<Sum>p\<leftarrow>largestOf first others. inverseAccuracy p)\<rparr>"
proof -
  have in_cs: "largestOf first others \<in> set (first # others)"
    by (rule largestOf_in)
  show ne: "largestOf first others \<noteq> []"
    using findClusters_nonempty [OF assms in_cs] .
  show v: "\<forall>p\<in>set (largestOf first others). p \<in> toPoint ` set tripBookings \<and> \<not> invalidCoords p"
    using findClusters_valid [OF assms in_cs] by auto
  then have "\<forall>p\<in>set (largestOf first others). usable p"
    by (auto intro: usable_toPoint)
  with ne show "calculateWeightedCenter (largestOf first others) =
           Some \<lparr>center.lat = (\<Sum>p\<leftarrow>largestOf first others. num (point.lat p) * inverseAccuracy p)
                               / (\<Sum>p\<leftarrow>largestOf first others. inverseAccuracy p),
                  center.lng = (\<Sum>p\<leftarrow>largestOf first others. num (point.lng p) * inverseAccuracy p)
                               / (\<Sum>p\<leftarrow>largestOf first others. inverseAccuracy p)\<rparr>"
    by (rule calculateWeightedCenter_usable)
qed

lemma inverseAccuracy_toPoint:
  "inverseAccuracy (toPoint b) =
     (case accuracy b of
        Num a \<Rightarrow> if 0 < a then 1 / max a 1 else 1 / 50
      | _ \<Rightarrow> 1 / 50)"
  by (cases "accuracy b") (simp_all add: inverseAccuracy_def toPoint_def)

subsection \<open>Claims about the distance\<close>

text \<open>
  C9. \<^verbatim>\<open>calculateHaversineDistance\<close> is the Haversine great-circle distance with mean
  Earth radius 6,371,000 m: with the angles in radians,
  \<open>a = sin\<^sup>2(\<Delta>lat/2) + cos lat1 \<cdot> cos lat2 \<cdot> sin\<^sup>2(\<Delta>lng/2)\<close> and the distance is
  \<open>2 \<cdot> R \<cdot> atan2(\<surd>a, \<surd>(1 - a))\<close>. It is symmetric in its two points, and it is zero
  when the two points are the same. (Doubles are idealised as reals.)
\<close>

theorem haversine_distance_symmetric_zero:
  "calculateHaversineDistance lat1 lon1 lat2 lon2 =
     2 * 6371000 *
       atan2 (sqrt ((sin ((lat2 - lat1) * pi / 180 / 2))\<^sup>2
                    + cos (lat1 * pi / 180) * cos (lat2 * pi / 180)
                      * (sin ((lon2 - lon1) * pi / 180 / 2))\<^sup>2))
             (sqrt (1 - ((sin ((lat2 - lat1) * pi / 180 / 2))\<^sup>2
                         + cos (lat1 * pi / 180) * cos (lat2 * pi / 180)
                           * (sin ((lon2 - lon1) * pi / 180 / 2))\<^sup>2)))
   \<and> calculateHaversineDistance lat1 lon1 lat2 lon2
       = calculateHaversineDistance lat2 lon2 lat1 lon1
   \<and> calculateHaversineDistance lat1 lon1 lat1 lon1 = 0"
proof (intro conjI)
  show "calculateHaversineDistance lat1 lon1 lat2 lon2 =
     2 * 6371000 *
       atan2 (sqrt ((sin ((lat2 - lat1) * pi / 180 / 2))\<^sup>2
                    + cos (lat1 * pi / 180) * cos (lat2 * pi / 180)
                      * (sin ((lon2 - lon1) * pi / 180 / 2))\<^sup>2))
             (sqrt (1 - ((sin ((lat2 - lat1) * pi / 180 / 2))\<^sup>2
                         + cos (lat1 * pi / 180) * cos (lat2 * pi / 180)
                           * (sin ((lon2 - lon1) * pi / 180 / 2))\<^sup>2)))"
    by (simp add: calculateHaversineDistance_def haversine_a_def Let_def power2_eq_square
        mult.assoc)
  show "calculateHaversineDistance lat1 lon1 lat2 lon2
        = calculateHaversineDistance lat2 lon2 lat1 lon1"
    by (rule haversine_sym)
  show "calculateHaversineDistance lat1 lon1 lat1 lon1 = 0"
    by (rule haversine_same)
qed

subsection \<open>Claims about the clustering procedure\<close>


subsection \<open>Claims about the stored cluster\<close>

text \<open>
  C3. When a cluster is stored for a trip, it is a cluster with the maximum number of
  member points among the clusters found for that trip's recent pings, and among clusters
  of that maximum size it is the first one found: every cluster found earlier is strictly
  smaller, every cluster found later is no larger. Its \<^verbatim>\<open>riderCount\<close> is the number of
  its members and its \<^verbatim>\<open>riders\<close> are their rider ids, in the order of discovery.
\<close>

theorem largest_cluster_selected:
  assumes "calculateClusters now newDate bookings trips = Inr m" and "m tc = Some c"
  shows "\<exists>earlier largest later.
           findClusters (map toPoint (recentTripRiders now bookings tc))
             = Inr (earlier @ largest # later)
           \<and> (\<forall>x\<in>set earlier. length x < length largest)
           \<and> (\<forall>x\<in>set later. length x \<le> length largest)
           \<and> riderCount c = length largest
           \<and> riders c = map riderId largest"
proof -
  from assms have "clusterFor now newDate bookings tc = Some c"
    by (simp add: calculateClusters_eq)
  from clusterFor_Some [OF this] obtain first others where
    f: "findClusters (map toPoint (recentTripRiders now bookings tc)) = Inr (first # others)"
    and r: "riderCount c = length (largestOf first others)"
       "riders c = map riderId (largestOf first others)"
    by blast
  from largestOf_first_max [of first others] obtain earlier later where
    "first # others = earlier @ largestOf first others # later"
    "\<forall>x\<in>set earlier. length x < length (largestOf first others)"
    "\<forall>x\<in>set later. length x \<le> length (largestOf first others)"
    by blast
  with f r show ?thesis
    by (intro exI [of _ earlier] exI [of _ "largestOf first others"] exI [of _ later]) simp
qed

text \<open>
  Four riders of one trip, two at (0,0) and two at (0,180): two clusters of two members, and
  the first one is stored.
\<close>

theorem largest_cluster_selected_witness:
  "calculateClusters 1000000 (\<lambda>tc. 1000000)
     [riderAt ''T1'' ''R1'' 1000000 0 0, riderAt ''T1'' ''R2'' 1000000 0 0,
      riderAt ''T1'' ''R3'' 1000000 0 180, riderAt ''T1'' ''R4'' 1000000 0 180] []
   = Inr (clusterFor 1000000 (\<lambda>tc. 1000000)
     [riderAt ''T1'' ''R1'' 1000000 0 0, riderAt ''T1'' ''R2'' 1000000 0 0,
      riderAt ''T1'' ''R3'' 1000000 0 180, riderAt ''T1'' ''R4'' 1000000 0 180])
   \<and> clusterFor 1000000 (\<lambda>tc. 1000000)
     [riderAt ''T1'' ''R1'' 1000000 0 0, riderAt ''T1'' ''R2'' 1000000 0 0,
      riderAt ''T1'' ''R3'' 1000000 0 180, riderAt ''T1'' ''R4'' 1000000 0 180] ''T1''
     = Some \<lparr>cluster.tripCode = ''T1'', center = \<lparr>center.lat = 0, center.lng = 0\<rparr>,
         strength = 1 / 2, riderCount = 2, totalRiders = 4, cluster.timestamp = 1000000,
         riders = [''R1'', ''R2'']\<rparr>
   \<and> (\<exists>earlier largest later.
         findClusters (map toPoint (recentTripRiders 1000000
           [riderAt ''T1'' ''R1'' 1000000 0 0, riderAt ''T1'' ''R2'' 1000000 0 0,
            riderAt ''T1'' ''R3'' 1000000 0 180, riderAt ''T1'' ''R4'' 1000000 0 180] ''T1''))
           = Inr (earlier @ largest # later)
         \<and> list_all (\<lambda>x. length x < length largest) earlier
         \<and> list_all (\<lambda>x. length x \<le> length largest) later
         \<and> length largest = 2
         \<and> map riderId largest = [''R1'', ''R2''])"
proof -
  let ?bs = "[riderAt ''T1'' ''R1'' 1000000 0 0, riderAt ''T1'' ''R2'' 1000000 0 0,
      riderAt ''T1'' ''R3'' 1000000 0 180, riderAt ''T1'' ''R4'' 1000000 0 180]"
  have h1: "calculateClusters 1000000 (\<lambda>tc. 1000000) ?bs []
            = Inr (clusterFor 1000000 (\<lambda>tc. 1000000) ?bs)"
    by (rule calculateClusters_eq)
  let ?c = "\<lparr>cluster.tripCode = ''T1'', center = \<lparr>center.lat = 0, center.lng = 0\<rparr>,
         strength = 1 / 2, riderCount = 2, totalRiders = 4, cluster.timestamp = 1000000,
         riders = [''R1'', ''R2'']\<rparr>"
  note h2 = clusterFor_four_riders
  from largest_cluster_selected [OF h1 h2] obtain earlier largest later where
    f: "findClusters (map toPoint (recentTripRiders 1000000 ?bs ''T1''))
        = Inr (earlier @ largest # later)"
    and e: "\<forall>x\<in>set earlier. length x < length largest"
    and l: "\<forall>x\<in>set later. length x \<le> length largest"
    and n0: "riderCount ?c = length largest"
    and r0: "riders ?c = map riderId largest"
    by blast
  from n0 have n: "2 = length largest" by simp
  from r0 have r: "[''R1'', ''R2''] = map riderId largest" by simp
  have "\<exists>earlier largest later.
         findClusters (map toPoint (recentTripRiders 1000000 ?bs ''T1''))
           = Inr (earlier @ largest # later)
         \<and> list_all (\<lambda>x. length x < length largest) earlier
         \<and> list_all (\<lambda>x. length x \<le> length largest) later
         \<and> length largest = 2
         \<and> map riderId largest = [''R1'', ''R2'']"
    using f e l n [symmetric] r [symmetric]
    by (intro exI [of _ earlier] exI [of _ largest] exI [of _ later])
      (simp add: list_all_iff)
  with h1 h2 show ?thesis
    by (intro conjI)
qed

text \<open>
  C4, as amended. For every stored cluster, \<open>0 \<le> strength \<le> 1\<close>, \<^verbatim>\<open>riderCount\<close> and
  \<^verbatim>\<open>totalRiders\<close> are positive, and \<open>strength = min(1, riderCount / totalRiders)\<close>.
  \<^verbatim>\<open>totalRiders\<close> is the number of distinct non-empty rider ids seen for that trip code
  in the entire, unfiltered list of bookings, or \<^verbatim>\<open>riderCount\<close> itself when there is none
  (or the trip code is empty). When the trip code is not empty and the trip's recent pings
  carry pairwise distinct, non-empty rider ids (one booking per rider and trip, as
  \<^verbatim>\<open>/api/logBooking\<close> keeps them), \<^verbatim>\<open>totalRiders\<close> is that number of distinct rider ids
  and \<open>riderCount \<le> totalRiders\<close>.
\<close>

theorem strength_and_rider_counts:
  assumes "calculateClusters now newDate bookings trips = Inr m" and "m tc = Some c"
  shows "0 \<le> strength c \<and> strength c \<le> 1 \<and> 0 < riderCount c \<and> 0 < totalRiders c
    \<and> strength c = min 1 (real (riderCount c) / real (totalRiders c))
    \<and> totalRiders c = (if ridersOf bookings tc = {} then riderCount c
                        else card (ridersOf bookings tc))
    \<and> (tc \<noteq> [] \<and> distinct (map riderId (recentTripRiders now bookings tc))
        \<and> (\<forall>b\<in>set (recentTripRiders now bookings tc). riderId b \<noteq> [])
        \<longrightarrow> totalRiders c = card (ridersOf bookings tc) \<and> riderCount c \<le> totalRiders c)"
proof -
  let ?rs = "recentTripRiders now bookings tc"
  from assms have "clusterFor now newDate bookings tc = Some c"
    by (simp add: calculateClusters_eq)
  from clusterFor_Some [OF this] obtain first others where
    f: "findClusters (map toPoint ?rs) = Inr (first # others)"
    and n: "riderCount c = length (largestOf first others)"
    and t: "totalRiders c = (case countRiders bookings tc of
                               None \<Rightarrow> length (largestOf first others)
                             | Some s \<Rightarrow> if card s = 0 then length (largestOf first others)
                                         else card s)"
    and s: "strength c = min 1 (if 0 < totalRiders c
                                then real (riderCount c) / real (totalRiders c) else 0)"
    by blast
  have pos: "0 < riderCount c"
    using findClusters_nonempty [OF f largestOf_in] n by simp
  have le: "riderCount c \<le> length ?rs"
    using findClusters_length [OF f largestOf_in] n by simp
  have card_pos: "0 < card (ridersOf bookings tc)" if "ridersOf bookings tc \<noteq> {}"
    using that finite_ridersOf [of bookings tc] by (simp add: card_gt_0_iff)
  have total: "totalRiders c = (if ridersOf bookings tc = {} then riderCount c
                                else card (ridersOf bookings tc))"
  proof (cases "ridersOf bookings tc = {}")
    case True
    with t n show ?thesis by (simp add: countRiders_eq)
  next
    case False
    with card_pos have "card (ridersOf bookings tc) \<noteq> 0" by simp
    with False t n show ?thesis by (simp add: countRiders_eq)
  qed
  with pos card_pos have tpos: "0 < totalRiders c"
    by (simp split: if_splits)
  from s tpos have str: "strength c = min 1 (real (riderCount c) / real (totalRiders c))"
    by simp
  have cond: "totalRiders c = card (ridersOf bookings tc) \<and> riderCount c \<le> totalRiders c"
    if h: "tc \<noteq> []" "distinct (map riderId ?rs)" "\<forall>b\<in>set ?rs. riderId b \<noteq> []"
  proof -
    have sub: "riderId ` set ?rs \<subseteq> ridersOf bookings tc"
      using h(1,3) set_recentTripRiders [of now bookings tc] by (auto simp: ridersOf_def)
    have "length ?rs = card (riderId ` set ?rs)"
      using distinct_card [OF h(2)] by simp
    also have "\<dots> \<le> card (ridersOf bookings tc)"
      using sub by (intro card_mono finite_ridersOf)
    finally have l: "length ?rs \<le> card (ridersOf bookings tc)" .
    with le pos have "ridersOf bookings tc \<noteq> {}" by auto
    with total le l show ?thesis by simp
  qed
  have lo: "0 \<le> strength c" and hi: "strength c \<le> 1"
    unfolding str by simp_all
  from lo hi pos tpos str total cond show ?thesis
    by blast
qed

text \<open>Two riders of one trip at the same place: both counts are 2.\<close>

theorem strength_and_rider_counts_witness:
  "calculateClusters 1000000 (\<lambda>tc. 1000000)
     [riderAt ''T1'' ''R1'' 1000000 0 0, riderAt ''T1'' ''R2'' 1000000 0 0] []
   = Inr (clusterFor 1000000 (\<lambda>tc. 1000000)
            [riderAt ''T1'' ''R1'' 1000000 0 0, riderAt ''T1'' ''R2'' 1000000 0 0])
   \<and> clusterFor 1000000 (\<lambda>tc. 1000000)
         [riderAt ''T1'' ''R1'' 1000000 0 0, riderAt ''T1'' ''R2'' 1000000 0 0] ''T1''
       = Some \<lparr>cluster.tripCode = ''T1'', center = \<lparr>center.lat = 0, center.lng = 0\<rparr>,
           strength = 1, riderCount = 2, totalRiders = 2, cluster.timestamp = 1000000,
           riders = [''R1'', ''R2'']\<rparr>
   \<and> ''T1'' \<noteq> []
   \<and> distinct (map riderId (recentTripRiders 1000000
         [riderAt ''T1'' ''R1'' 1000000 0 0, riderAt ''T1'' ''R2'' 1000000 0 0] ''T1''))
   \<and> list_all (\<lambda>b. riderId b \<noteq> []) (recentTripRiders 1000000
         [riderAt ''T1'' ''R1'' 1000000 0 0, riderAt ''T1'' ''R2'' 1000000 0 0] ''T1'')
   \<and> card (ridersOf [riderAt ''T1'' ''R1'' 1000000 0 0, riderAt ''T1'' ''R2'' 1000000 0 0]
         ''T1'') = 2"
proof -
  let ?bs = "[riderAt ''T1'' ''R1'' 1000000 0 0, riderAt ''T1'' ''R2'' 1000000 0 0]"
  let ?c = "\<lparr>cluster.tripCode = ''T1'', center = \<lparr>center.lat = 0, center.lng = 0\<rparr>,
           strength = 1, riderCount = 2, totalRiders = 2, cluster.timestamp = 1000000,
           riders = [''R1'', ''R2'']\<rparr>"
  have h1: "calculateClusters 1000000 (\<lambda>tc. 1000000) ?bs []
            = Inr (clusterFor 1000000 (\<lambda>tc. 1000000) ?bs)"
    by (rule calculateClusters_eq)
  have h2: "clusterFor 1000000 (\<lambda>tc. 1000000) ?bs ''T1'' = Some ?c"
    by (simp add: clusterFor_pair [where la = 0 and lo = 0] countRiders_def)
  have r: "recentTripRiders 1000000 ?bs ''T1'' = ?bs"
    by (simp add: recentTripRiders_def RECENT_BOOKING_MINUTES_def)
  have h3: "''T1'' \<noteq> [] \<and> distinct (map riderId (recentTripRiders 1000000 ?bs ''T1''))
            \<and> (\<forall>b\<in>set (recentTripRiders 1000000 ?bs ''T1''). riderId b \<noteq> [])"
    unfolding r by simp
  from strength_and_rider_counts [OF h1 h2] h3
  have "totalRiders ?c = card (ridersOf ?bs ''T1'')"
    by blast
  then have "card (ridersOf ?bs ''T1'') = 2"
    by simp
  with h1 h2 h3 show ?thesis
    by (simp add: list_all_iff)
qed

text \<open>
  C4 as stated fails: two recent bookings of one trip with the same rider id, at the same
  place, give a cluster with \<open>riderCount = 2\<close> and \<open>totalRiders = 1\<close>.
\<close>

theorem duplicate_rider_counterexample:
  "\<exists>m c. calculateClusters 1000000 (\<lambda>tc. 1000000)
            [riderAt ''T1'' ''R1'' 1000000 0 0, riderAt ''T1'' ''R1'' 999999 0 0] [] = Inr m
         \<and> m ''T1'' = Some c \<and> riderCount c = 2 \<and> totalRiders c = 1
         \<and> \<not> riderCount c \<le> totalRiders c"
  by (simp add: calculateClusters_eq clusterFor_pair [where la = 0 and lo = 0] countRiders_def)

subsection \<open>Claims about the centroid\<close>

text \<open>
  C5. The centre of a list of member points is the weighted average with weight
  \<open>1 / max(accuracy, 1)\<close> per point: centre = (sum of lat \<open>\<cdot>\<close> w, sum of lng \<open>\<cdot>\<close> w) / sum
  of w, over the points whose coordinates are valid numbers and whose weight is a number.
  If no point enters the weighted sums, so that the total weight is zero, the centre is the
  unweighted mean of the points with valid coordinates; if there is none (in particular for
  the empty list) there is no centre. For the points that \<^verbatim>\<open>calculateClusters\<close> builds
  from bookings the weight is always a number, so the centre is the weighted average over
  the points with valid coordinates, and there is none only when no point is valid; such a
  point has the coordinates of its booking, and its accuracy is the booking's if that is a
  positive number and 50 otherwise.

  Processing a trip raises no error. When the scan finds no cluster, nothing is stored for
  the trip. When it finds one, the largest cluster is not empty and all its members have
  valid coordinates; an entry is stored, its centre is the value that
  \<^verbatim>\<open>calculateWeightedCenter\<close> returns for the members of the largest cluster, which is
  their weighted average, and its riders are those members, in order. In particular an
  entry is never stored without that centre, and the case of a largest cluster with no
  valid point, for which there is no centre, does not arise.

  The centre of two points at (0,0) and (0,2) of equal accuracy is (0,1).
\<close>

theorem weighted_center:
  "calculateWeightedCenter points =
     (let weighted = filter usable points;
          valid = filter (\<lambda>p. \<not> invalidCoords p) points
      in if weighted \<noteq> []
         then Some \<lparr>center.lat = (\<Sum>p\<leftarrow>weighted. num (point.lat p) * inverseAccuracy p)
                                 / (\<Sum>p\<leftarrow>weighted. inverseAccuracy p),
                    center.lng = (\<Sum>p\<leftarrow>weighted. num (point.lng p) * inverseAccuracy p)
                                 / (\<Sum>p\<leftarrow>weighted. inverseAccuracy p)\<rparr>
         else if valid \<noteq> []
         then Some \<lparr>center.lat = (\<Sum>p\<leftarrow>valid. num (point.lat p)) / real (length valid),
                    center.lng = (\<Sum>p\<leftarrow>valid. num (point.lng p)) / real (length valid)\<rparr>
         else None)
   \<and> calculateWeightedCenter (map toPoint bookings) =
       (let valid = filter (\<lambda>p. \<not> invalidCoords p) (map toPoint bookings)
        in if valid \<noteq> []
           then Some \<lparr>center.lat = (\<Sum>p\<leftarrow>valid. num (point.lat p) * inverseAccuracy p)
                                   / (\<Sum>p\<leftarrow>valid. inverseAccuracy p),
                      center.lng = (\<Sum>p\<leftarrow>valid. num (point.lng p) * inverseAccuracy p)
                                   / (\<Sum>p\<leftarrow>valid. inverseAccuracy p)\<rparr>
           else None)
   \<and> point.lat (toPoint b) = point.lat b \<and> point.lng (toPoint b) = point.lng b
   \<and> inverseAccuracy (toPoint b) =
       (case accuracy b of
          Num a \<Rightarrow> if 0 < a then 1 / max a 1 else 1 / 50
        | _ \<Rightarrow> 1 / 50)
   \<and> (case findClusters (map toPoint tripBookings) of
         Inl e \<Rightarrow> False
       | Inr [] \<Rightarrow> processTrip newDate totalRidersPerTrip tc tripBookings = Inr None
       | Inr (first # others) \<Rightarrow>
           (let winning = largestOf first others
            in winning \<noteq> []
               \<and> list_all (\<lambda>p. \<not> invalidCoords p) winning
               \<and> (\<exists>c. processTrip newDate totalRidersPerTrip tc tripBookings = Inr (Some c)
                       \<and> calculateWeightedCenter winning = Some (center c)
                       \<and> center c =
                           \<lparr>center.lat = (\<Sum>p\<leftarrow>winning. num (point.lat p) * inverseAccuracy p)
                                          / (\<Sum>p\<leftarrow>winning. inverseAccuracy p),
                            center.lng = (\<Sum>p\<leftarrow>winning. num (point.lng p) * inverseAccuracy p)
                                          / (\<Sum>p\<leftarrow>winning. inverseAccuracy p)\<rparr>
                       \<and> riders c = map riderId winning)))
   \<and> calculateWeightedCenter
         [\<lparr>point.lat = Num 0, lng = Num 0, riderId = r1, timestamp = t1, accuracy = acc\<rparr>,
          \<lparr>point.lat = Num 0, lng = Num 2, riderId = r2, timestamp = t2, accuracy = acc\<rparr>]
       = Some \<lparr>center.lat = 0, center.lng = 1\<rparr>"
proof (intro conjI)
  show general: "calculateWeightedCenter ps =
     (let weighted = filter usable ps;
          valid = filter (\<lambda>p. \<not> invalidCoords p) ps
      in if weighted \<noteq> []
         then Some \<lparr>center.lat = (\<Sum>p\<leftarrow>weighted. num (point.lat p) * inverseAccuracy p)
                                 / (\<Sum>p\<leftarrow>weighted. inverseAccuracy p),
                    center.lng = (\<Sum>p\<leftarrow>weighted. num (point.lng p) * inverseAccuracy p)
                                 / (\<Sum>p\<leftarrow>weighted. inverseAccuracy p)\<rparr>
         else if valid \<noteq> []
         then Some \<lparr>center.lat = (\<Sum>p\<leftarrow>valid. num (point.lat p)) / real (length valid),
                    center.lng = (\<Sum>p\<leftarrow>valid. num (point.lng p)) / real (length valid)\<rparr>
         else None)" for ps
    by (rule calculateWeightedCenter_eq)
  show "calculateWeightedCenter (map toPoint bookings) =
       (let valid = filter (\<lambda>p. \<not> invalidCoords p) (map toPoint bookings)
        in if valid \<noteq> []
           then Some \<lparr>center.lat = (\<Sum>p\<leftarrow>valid. num (point.lat p) * inverseAccuracy p)
                                   / (\<Sum>p\<leftarrow>valid. inverseAccuracy p),
                      center.lng = (\<Sum>p\<leftarrow>valid. num (point.lng p) * inverseAccuracy p)
                                   / (\<Sum>p\<leftarrow>valid. inverseAccuracy p)\<rparr>
           else None)"
  proof -
    have "filter usable (map toPoint bookings)
          = filter (\<lambda>p. \<not> invalidCoords p) (map toPoint bookings)"
      using toNumber_accuracy_toPoint by (intro filter_cong) (auto simp: usable_def)
    then show ?thesis
      by (simp add: calculateWeightedCenter_eq Let_def)
  qed
  show "point.lat (toPoint b) = point.lat b" "point.lng (toPoint b) = point.lng b"
    by (simp_all add: toPoint_def)
  show "inverseAccuracy (toPoint b) =
       (case accuracy b of
          Num a \<Rightarrow> if 0 < a then 1 / max a 1 else 1 / 50
        | _ \<Rightarrow> 1 / 50)"
    by (rule inverseAccuracy_toPoint)
  show "case findClusters (map toPoint tripBookings) of
         Inl e \<Rightarrow> False
       | Inr [] \<Rightarrow> processTrip newDate totalRidersPerTrip tc tripBookings = Inr None
       | Inr (first # others) \<Rightarrow>
           (let winning = largestOf first others
            in winning \<noteq> []
               \<and> list_all (\<lambda>p. \<not> invalidCoords p) winning
               \<and> (\<exists>c. processTrip newDate totalRidersPerTrip tc tripBookings = Inr (Some c)
                       \<and> calculateWeightedCenter winning = Some (center c)
                       \<and> center c =
                           \<lparr>center.lat = (\<Sum>p\<leftarrow>winning. num (point.lat p) * inverseAccuracy p)
                                          / (\<Sum>p\<leftarrow>winning. inverseAccuracy p),
                            center.lng = (\<Sum>p\<leftarrow>winning. num (point.lng p) * inverseAccuracy p)
                                          / (\<Sum>p\<leftarrow>winning. inverseAccuracy p)\<rparr>
                       \<and> riders c = map riderId winning))"
  proof -
    obtain cs where cs: "findClusters (map toPoint tripBookings) = Inr cs"
      using findClusters_Inr by blast
    show ?thesis
    proof (cases cs)
      case Nil
      with cs show ?thesis
        by (simp add: processTrip_def)
    next
      case (Cons first others)
      with cs have f: "findClusters (map toPoint tripBookings) = Inr (first # others)"
        by simp
      have len: "\<not> length tripBookings < MINIMUM_CLUSTER_SIZE"
      proof
        assume "length tripBookings < MINIMUM_CLUSTER_SIZE"
        then have "findClusters (map toPoint tripBookings) = Inr []"
          by (intro findClusters_short) (simp add: MINIMUM_CLUSTER_SIZE_def)
        with f show False by simp
      qed
      note w = winning_cluster [OF f]
      from w(2) have "list_all (\<lambda>p. \<not> invalidCoords p) (largestOf first others)"
        by (simp add: list_all_iff)
      with f len w(1) w(3) show ?thesis
        by (simp add: processTrip_def Let_def)
    qed
  qed
  show "calculateWeightedCenter
         [\<lparr>point.lat = Num 0, lng = Num 0, riderId = r1, timestamp = t1, accuracy = acc\<rparr>,
          \<lparr>point.lat = Num 0, lng = Num 2, riderId = r2, timestamp = t2, accuracy = acc\<rparr>]
        = Some \<lparr>center.lat = 0, center.lng = 1\<rparr>"
  proof (cases "toNumber acc")
    case None
    then show ?thesis
      by (simp add: calculateWeightedCenter_eq usable_def invalidCoords_def isNaN_def)
  next
    case (Some a)
    have "2 * inverseAccuracy p / (inverseAccuracy q + inverseAccuracy p) = 1"
      if "inverseAccuracy q = inverseAccuracy p" for p q
      using that inverseAccuracy_pos [of p] by simp
    with Some show ?thesis
      by (simp add: calculateWeightedCenter_eq usable_def invalidCoords_def isNaN_def
          inverseAccuracy_def)
  qed
qed

text \<open>
  The centre of (0,0) and (0,2), both with accuracy 10 m, and the entry stored for a trip
  with two pings at (1,2), one of them without an accuracy, computed through the theorem.
\<close>

theorem weighted_center_example:
  "calculateWeightedCenter
     [\<lparr>point.lat = Num 0, lng = Num 0, riderId = ''R1'', timestamp = TsTime 0, accuracy = Num 10\<rparr>,
      \<lparr>point.lat = Num 0, lng = Num 2, riderId = ''R2'', timestamp = TsTime 0, accuracy = Num 10\<rparr>]
   = Some \<lparr>center.lat = 0, center.lng = 1\<rparr>
   \<and> (\<exists>c. processTrip 0 Map.empty ''T1''
              [\<lparr>point.lat = Num 1, lng = Num 2, riderId = ''R1'', timestamp = TsTime 0,
                accuracy = Num 10, tripCode = ''T1''\<rparr>,
               \<lparr>point.lat = Num 1, lng = Num 2, riderId = ''R2'', timestamp = TsTime 0,
                accuracy = Undefined, tripCode = ''T1''\<rparr>] = Inr (Some c)
           \<and> center c = \<lparr>center.lat = 1, center.lng = 2\<rparr>
           \<and> riders c = [''R1'', ''R2''])"
proof
  show "calculateWeightedCenter
     [\<lparr>point.lat = Num 0, lng = Num 0, riderId = ''R1'', timestamp = TsTime 0, accuracy = Num 10\<rparr>,
      \<lparr>point.lat = Num 0, lng = Num 2, riderId = ''R2'', timestamp = TsTime 0, accuracy = Num 10\<rparr>]
   = Some \<lparr>center.lat = 0, center.lng = 1\<rparr>"
    using weighted_center [THEN conjunct1, of
     "[\<lparr>point.lat = Num 0, lng = Num 0, riderId = ''R1'', timestamp = TsTime 0, accuracy = Num 10\<rparr>,
      \<lparr>point.lat = Num 0, lng = Num 2, riderId = ''R2'', timestamp = TsTime 0, accuracy = Num 10\<rparr>]"]
    by (simp add: usable_def invalidCoords_def isNaN_def inverseAccuracy_def)
next
  let ?b1 = "\<lparr>point.lat = Num 1, lng = Num 2, riderId = ''R1'', timestamp = TsTime 0,
                accuracy = Num 10, tripCode = ''T1''\<rparr>"
  let ?b2 = "\<lparr>point.lat = Num 1, lng = Num 2, riderId = ''R2'', timestamp = TsTime 0,
                accuracy = Undefined, tripCode = ''T1''\<rparr>"
  have f: "findClusters (map toPoint [?b1, ?b2]) = Inr [[toPoint ?b1, toPoint ?b2]]"
    by (simp, intro findClusters_pair withinRadius_same)
       (simp_all add: invalidCoords_def isNaN_def)
  have "case findClusters (map toPoint [?b1, ?b2]) of
         Inl e \<Rightarrow> False
       | Inr [] \<Rightarrow> processTrip 0 Map.empty ''T1'' [?b1, ?b2] = Inr None
       | Inr (first # others) \<Rightarrow>
           (let winning = largestOf first others
            in winning \<noteq> []
               \<and> list_all (\<lambda>p. \<not> invalidCoords p) winning
               \<and> (\<exists>c. processTrip 0 Map.empty ''T1'' [?b1, ?b2] = Inr (Some c)
                       \<and> calculateWeightedCenter winning = Some (center c)
                       \<and> center c =
                           \<lparr>center.lat = (\<Sum>p\<leftarrow>winning. num (point.lat p) * inverseAccuracy p)
                                          / (\<Sum>p\<leftarrow>winning. inverseAccuracy p),
                            center.lng = (\<Sum>p\<leftarrow>winning. num (point.lng p) * inverseAccuracy p)
                                          / (\<Sum>p\<leftarrow>winning. inverseAccuracy p)\<rparr>
                       \<and> riders c = map riderId winning))"
    using weighted_center [where tripBookings = "[?b1, ?b2]" and newDate = 0
        and totalRidersPerTrip = Map.empty and tc = "''T1''"]
    by blast
  then show "\<exists>c. processTrip 0 Map.empty ''T1'' [?b1, ?b2] = Inr (Some c)
           \<and> center c = \<lparr>center.lat = 1, center.lng = 2\<rparr>
           \<and> riders c = [''R1'', ''R2'']"
    unfolding f
    by (simp add: largestOf_def inverseAccuracy_def toPoint_def) blast
qed

subsection \<open>Claims about the trip registry and empty inputs\<close>

text \<open>
  C10. The result of \<^verbatim>\<open>calculateClusters\<close> does not depend on the trip registry: for
  every list of bookings it is the same on any two trip lists. So a cluster can be stored
  for a trip code that is not registered: two riders of trip T1 at the same place give a
  cluster for T1 although the trip list is empty.
\<close>

theorem clusters_ignore_trip_registry:
  "calculateClusters now newDate bookings trips = calculateClusters now newDate bookings trips'
   \<and> (\<exists>m. calculateClusters 1000000 (\<lambda>tc. 1000000)
              [riderAt ''T1'' ''R1'' 1000000 0 0, riderAt ''T1'' ''R2'' 1000000 0 0] [] = Inr m
            \<and> m ''T1'' = Some \<lparr>cluster.tripCode = ''T1'',
                              center = \<lparr>center.lat = 0, center.lng = 0\<rparr>,
                              strength = 1, riderCount = 2, totalRiders = 2,
                              cluster.timestamp = 1000000, riders = [''R1'', ''R2'']\<rparr>)"
proof
  show "calculateClusters now newDate bookings trips
        = calculateClusters now newDate bookings trips'"
    by (simp add: calculateClusters_def)
  show "\<exists>m. calculateClusters 1000000 (\<lambda>tc. 1000000)
              [riderAt ''T1'' ''R1'' 1000000 0 0, riderAt ''T1'' ''R2'' 1000000 0 0] [] = Inr m
            \<and> m ''T1'' = Some \<lparr>cluster.tripCode = ''T1'',
                              center = \<lparr>center.lat = 0, center.lng = 0\<rparr>,
                              strength = 1, riderCount = 2, totalRiders = 2,
                              cluster.timestamp = 1000000, riders = [''R1'', ''R2'']\<rparr>"
    by (simp add: calculateClusters_eq clusterFor_pair [where la = 0 and lo = 0]
        countRiders_def)
qed

text \<open>
  C7, as amended. \<^verbatim>\<open>calculateClusters\<close> returns an empty map, and no error, whenever
  the list of bookings is empty, whatever the trips. \<^verbatim>\<open>calculateTripHealth\<close> returns an
  empty map whenever the list of trips is empty, whatever the bookings. With no bookings
  and some trips, \<^verbatim>\<open>calculateTripHealth\<close> has an entry for every registered trip code:
  \<^verbatim>\<open>NO_SIGNAL\<close>, with the message that no riders have joined yet and no last update.
\<close>

theorem empty_inputs:
  "calculateClusters now newDate [] trips = Inr Map.empty
   \<and> calculateTripHealth now bookings [] = Map.empty
   \<and> calculateTripHealth now [] trips
       = (\<lambda>tc. if tc \<in> code ` set trips
                then Some \<lparr>status = NO_SIGNAL, message = NoRidersYet, lastUpdate = None\<rparr>
                else None)"
proof (intro conjI)
  show "calculateClusters now newDate [] trips = Inr Map.empty"
    by (simp add: calculateClusters_def groupByTrip_def)
  show "calculateTripHealth now bookings [] = Map.empty"
    by (simp add: calculateTripHealth_def)
  show "calculateTripHealth now [] trips
       = (\<lambda>tc. if tc \<in> code ` set trips
                then Some \<lparr>status = NO_SIGNAL, message = NoRidersYet, lastUpdate = None\<rparr>
                else None)"
    by (rule ext) (simp add: calculateTripHealth_eq tripHealthOf_def)
qed

text \<open>
  C7 as stated fails: with an empty list of bookings and one registered trip, the map
  returned by \<^verbatim>\<open>calculateTripHealth\<close> is not empty.
\<close>

theorem empty_pings_health_counterexample:
  "calculateTripHealth 1000000 [] [\<lparr>code = ''T1'', createdAt = TsTime 0\<rparr>] ''T1''
   = Some \<lparr>status = NO_SIGNAL, message = NoRidersYet, lastUpdate = None\<rparr>
   \<and> calculateTripHealth 1000000 [] [\<lparr>code = ''T1'', createdAt = TsTime 0\<rparr>] \<noteq> Map.empty"
proof -
  have v: "calculateTripHealth 1000000 [] [\<lparr>code = ''T1'', createdAt = TsTime 0\<rparr>] ''T1''
        = Some \<lparr>status = NO_SIGNAL, message = NoRidersYet, lastUpdate = None\<rparr>"
    by (simp add: calculateTripHealth_eq tripHealthOf_def)
  then have "calculateTripHealth 1000000 [] [\<lparr>code = ''T1'', createdAt = TsTime 0\<rparr>] ''T1''
             \<noteq> Map.empty ''T1''"
    by simp
  then have "calculateTripHealth 1000000 [] [\<lparr>code = ''T1'', createdAt = TsTime 0\<rparr>]
             \<noteq> Map.empty"
    by metis
  with v show ?thesis by simp
qed

subsection \<open>Claims about the clock\<close>

text \<open>
  C8, as amended. Neither function takes the current time as an argument: each reads the
  clock itself, \<^verbatim>\<open>calculateTripHealth\<close> once (\<^verbatim>\<open>Date.now()\<close>), and
  \<^verbatim>\<open>calculateClusters\<close> once on entry (\<^verbatim>\<open>Date.now()\<close>) and once more
  (\<^verbatim>\<open>new Date()\<close>) for the \<^verbatim>\<open>timestamp\<close> of every cluster it stores. Two runs of
  \<^verbatim>\<open>calculateClusters\<close> on the same bookings with the same reading on entry store
  clusters for the same trips, equal in every field but \<^verbatim>\<open>timestamp\<close>.
\<close>

theorem clusters_same_up_to_timestamp:
  "map_sum id (\<lambda>m. map_option (\<lambda>c. c\<lparr>cluster.timestamp := 0\<rparr>) \<circ> m)
     (calculateClusters now newDate bookings trips)
   = map_sum id (\<lambda>m. map_option (\<lambda>c. c\<lparr>cluster.timestamp := 0\<rparr>) \<circ> m)
       (calculateClusters now newDate' bookings trips')"
proof -
  have "map_option (\<lambda>c. c\<lparr>cluster.timestamp := 0\<rparr>)
          (case processTrip nd tot tc bs of Inr r \<Rightarrow> r | Inl e \<Rightarrow> None)
        = map_option (\<lambda>c. c\<lparr>cluster.timestamp := 0\<rparr>)
            (case processTrip nd' tot tc bs of Inr r \<Rightarrow> r | Inl e \<Rightarrow> None)"
    for nd nd' tot tc bs
    by (simp add: processTrip_def Let_def split: sum.splits list.splits option.splits)
  then show ?thesis
    by (simp add: calculateClusters_eq clusterFor_def fun_eq_iff)
qed

text \<open>
  C8 as stated fails: two runs on the same bookings and trips with the same reading
  \<open>now\<close> on entry, whose second readings of the clock differ by a millisecond, return
  different results.
\<close>

theorem same_now_different_output_counterexample:
  "calculateClusters 1000000 (\<lambda>tc. 1000000)
     [riderAt ''T1'' ''R1'' 1000000 0 0, riderAt ''T1'' ''R2'' 1000000 0 0] []
   \<noteq> calculateClusters 1000000 (\<lambda>tc. 1000001)
       [riderAt ''T1'' ''R1'' 1000000 0 0, riderAt ''T1'' ''R2'' 1000000 0 0] []"
proof
  assume "calculateClusters 1000000 (\<lambda>tc. 1000000)
     [riderAt ''T1'' ''R1'' 1000000 0 0, riderAt ''T1'' ''R2'' 1000000 0 0] []
   = calculateClusters 1000000 (\<lambda>tc. 1000001)
       [riderAt ''T1'' ''R1'' 1000000 0 0, riderAt ''T1'' ''R2'' 1000000 0 0] []"
  then have "clusterFor 1000000 (\<lambda>tc. 1000000)
       [riderAt ''T1'' ''R1'' 1000000 0 0, riderAt ''T1'' ''R2'' 1000000 0 0] ''T1''
     = clusterFor 1000000 (\<lambda>tc. 1000001)
         [riderAt ''T1'' ''R1'' 1000000 0 0, riderAt ''T1'' ''R2'' 1000000 0 0] ''T1''"
    by (simp add: calculateClusters_eq)
  then show False
    by (simp add: clusterFor_pair [where la = 0 and lo = 0])
qed

subsection \<open>Claims about the trip health\<close>

text \<open>
  C2, as amended. For every trip in the registry, the entry of \<^verbatim>\<open>calculateTripHealth\<close>
  is a function of the clock reading \<open>now\<close> and of that trip's full ping history. Among
  the trip's pings take those whose timestamp is valid and later than the epoch
  (\<^verbatim>\<open>getTime() > 0\<close>). If there is none, the status is \<^verbatim>\<open>NO_SIGNAL\<close> and
  \<^verbatim>\<open>lastUpdate\<close> is null. Otherwise \<^verbatim>\<open>lastUpdate\<close> is the most recent of these
  timestamps, and with \<open>age = now -\<close> that time, the status is \<^verbatim>\<open>ACTIVE\<close> when
  \<open>age \<le> 2\<close> minutes, \<^verbatim>\<open>STALE\<close> when \<open>2 < age \<le> 10\<close> minutes, and \<^verbatim>\<open>INACTIVE\<close> when
  \<open>age > 10\<close> minutes.
\<close>

theorem health_classifier:
  assumes "t \<in> set trips"
  shows "\<exists>h. calculateTripHealth now bookings trips (code t) = Some h \<and>
           (let ts = filter (\<lambda>x. 0 < x) (pingTimes bookings (code t))
            in if ts = [] then status h = NO_SIGNAL \<and> lastUpdate h = None
               else lastUpdate h = Some (TsTime (Max (set ts))) \<and>
                    status h = (if now - Max (set ts) \<le> 2 * 60 * 1000 then ACTIVE
                                else if now - Max (set ts) \<le> 10 * 60 * 1000 then STALE
                                else INACTIVE))"
  using assms
  by (simp add: calculateTripHealth_eq tripHealthOf_status tripHealthOf_lastUpdate
      pingTimes_def Let_def)

text \<open>A trip whose only ping is five minutes old is \<^verbatim>\<open>STALE\<close>.\<close>

theorem health_classifier_witness:
  "\<lparr>code = ''T1'', createdAt = TsTime 0\<rparr> \<in> set [\<lparr>code = ''T1'', createdAt = TsTime 0\<rparr>] \<and>
   (\<exists>h. calculateTripHealth 1000000 [riderAt ''T1'' ''R1'' 700000 0 0]
          [\<lparr>code = ''T1'', createdAt = TsTime 0\<rparr>] ''T1'' = Some h \<and>
        lastUpdate h = Some (TsTime 700000) \<and> status h = STALE)"
  using health_classifier [of "\<lparr>code = ''T1'', createdAt = TsTime 0\<rparr>"
      "[\<lparr>code = ''T1'', createdAt = TsTime 0\<rparr>]" 1000000 "[riderAt ''T1'' ''R1'' 700000 0 0]"]
  by (simp add: pingTimes_def)

text \<open>
  C2 as stated fails: a ping whose timestamp is valid and equal to the epoch (time 0, as
  \<^verbatim>\<open>new Date(null).getTime()\<close> is) is a ping with a valid timestamp, so the status
  should be \<^verbatim>\<open>INACTIVE\<close> with that timestamp as last update; the code answers
  \<^verbatim>\<open>NO_SIGNAL\<close> with no last update, because it starts the search for the latest time
  at 0 and takes 0 for "none found".
\<close>

theorem health_epoch_counterexample:
  "pingTimes [riderAt ''T1'' ''R1'' 0 0 0] ''T1'' = [0] \<and>
   calculateTripHealth 1000000 [riderAt ''T1'' ''R1'' 0 0 0]
     [\<lparr>code = ''T1'', createdAt = TsTime 0\<rparr>] ''T1''
   = Some \<lparr>status = NO_SIGNAL, message = CouldNotDetermine, lastUpdate = None\<rparr>"
  by (simp add: pingTimes_def calculateTripHealth_def tripHealthOf_def
      laterOf_def)

subsection \<open>Claims about malformed pings\<close>




end
